theory Spec2Isabelle
  imports Main "HOL-Library.Monad_Syntax"
begin

section \<open>Data model (sopgen/models.py)\<close>

text \<open>
  Python values that may sit in an open \<open>Dict[str, Any]\<close> bag. A dictionary is an
  association list in insertion order, which is the order Python keeps.
\<close>

datatype pyval =
    PNone
  | PBool bool
  | PInt int
  | PStr string
  | PList "pyval list"
  | PDict "(string \<times> pyval) list"

text \<open>
  A naive \<open>datetime\<close>, the kind \<open>datetime.now()\<close> returns, with the attribute names
  Python gives it. The operations below never read the clock themselves: every call of
  \<open>datetime.now()\<close> in the source is an extra argument holding the reading.
\<close>

record datetime =
  year :: nat
  month :: nat
  day :: nat
  hour :: nat
  minute :: nat
  second :: nat
  microsecond :: nat

text \<open>The dataclass \<open>Section\<close>; \<open>content_type\<close> is a plain string in the source.\<close>

record Section =
  title :: string
  content :: string
  content_type :: string
  ai_generated :: bool
  locked :: bool
  order :: int
  metadata :: "(string \<times> pyval) list"

record DocumentVersion =
  version_id :: int
  timestamp :: datetime
  user :: string
  role :: string
  changes :: string
  content_snapshot :: "Section list"

text \<open>
  The dataclass \<open>Document\<close>. Its \<open>title\<close> and \<open>metadata\<close> fields are named
  \<open>doc_title\<close> and \<open>doc_metadata\<close> here, since \<open>Section\<close> owns the short names.
\<close>

record Document =
  doc_title :: string
  doc_number :: string
  sections :: "Section list"
  created_by :: string
  created_at :: datetime
  last_modified :: datetime
  versions :: "DocumentVersion list"
  approved :: bool
  approver :: "string option"
  doc_metadata :: "(string \<times> pyval) list"
  template_name :: string

text \<open>\<open>Section(title=..., content=..., content_type=..., order=...)\<close> with the defaults
  of the other fields.\<close>

definition new_section :: "string \<Rightarrow> string \<Rightarrow> string \<Rightarrow> int \<Rightarrow> Section" where
  "new_section t c ct k =
     \<lparr>title = t, content = c, content_type = ct, ai_generated = False,
      locked = False, order = k, metadata = []\<rparr>"

text \<open>\<open>Document(title=t)\<close>: every other field at its default; both default timestamps
  are readings of the clock.\<close>

definition new_document :: "string \<Rightarrow> datetime \<Rightarrow> datetime \<Rightarrow> Document" where
  "new_document t now1 now2 =
     \<lparr>doc_title = t, doc_number = [], sections = [], created_by = [],
      created_at = now1, last_modified = now2, versions = [], approved = False,
      approver = None, doc_metadata = [], template_name = []\<rparr>"

subsection \<open>Section management\<close>

text \<open>
  \<open>add_section\<close>: the optional \<open>order\<close> argument is an \<open>int option\<close>. Python's
  \<open>list.sort\<close> is stable, and so is \<open>sort_key\<close>.
\<close>

definition add_section ::
  "Document \<Rightarrow> string \<Rightarrow> string \<Rightarrow> string \<Rightarrow> int option \<Rightarrow> Document" where
  "add_section d t c ct ord =
     (let k = (case ord of None \<Rightarrow> int (length (sections d)) | Some k \<Rightarrow> k)
      in d\<lparr>sections := sort_key order (sections d @ [new_section t c ct k])\<rparr>)"

text \<open>\<open>_reorder_sections\<close>: \<open>for idx, sec in enumerate(self.sections): sec.order = idx\<close>.\<close>

fun enumerate_order :: "nat \<Rightarrow> Section list \<Rightarrow> Section list" where
  "enumerate_order i [] = []"
| "enumerate_order i (s # ss) = s\<lparr>order := int i\<rparr> # enumerate_order (Suc i) ss"

definition reorder_sections :: "Document \<Rightarrow> Document" where
  "reorder_sections d = d\<lparr>sections := enumerate_order 0 (sections d)\<rparr>"

definition remove_section :: "Document \<Rightarrow> string \<Rightarrow> Document" where
  "remove_section d t =
     reorder_sections (d\<lparr>sections := filter (\<lambda>sec. title sec \<noteq> t) (sections d)\<rparr>)"

definition get_section :: "Document \<Rightarrow> string \<Rightarrow> Section option" where
  "get_section d t = find (\<lambda>sec. title sec = t) (sections d)"

text \<open>
  \<open>update_section\<close> writes through the object \<open>get_section\<close> returned, that is the
  first section of that title: \<open>update_first\<close> is that write on the list. The result
  pairs the returned boolean with the document afterwards.
\<close>

fun update_first :: "string \<Rightarrow> (Section \<Rightarrow> Section) \<Rightarrow> Section list \<Rightarrow> Section list" where
  "update_first t f [] = []"
| "update_first t f (s # ss) = (if title s = t then f s # ss else s # update_first t f ss)"

definition update_section ::
  "Document \<Rightarrow> string \<Rightarrow> string \<Rightarrow> bool \<Rightarrow> datetime \<Rightarrow> bool \<times> Document" where
  "update_section d t c ai now =
     (case get_section d t of
        None \<Rightarrow> (False, d)
      | Some sec \<Rightarrow>
          if \<not> locked sec
          then (True, d\<lparr>sections := update_first t (\<lambda>s. s\<lparr>content := c, ai_generated := ai\<rparr>)
                                    (sections d),
                        last_modified := now\<rparr>)
          else (False, d))"

subsection \<open>Versioning and approval\<close>

text \<open>
  \<open>log_version\<close> reads the clock twice, for the version's timestamp and for
  \<open>last_modified\<close>. The snapshot \<open>[Section(**asdict(sec)) for sec in self.sections]\<close>
  is a list of new objects with equal fields: as a value, the list of sections itself.
  The store model further down keeps the objects apart and makes the copying explicit.
\<close>

definition log_version ::
  "Document \<Rightarrow> string \<Rightarrow> string \<Rightarrow> string \<Rightarrow> datetime \<Rightarrow> datetime \<Rightarrow> Document" where
  "log_version d u r ch now1 now2 =
     (let vid = int (length (versions d)) + 1;
          snapshot = sections d
      in d\<lparr>versions := versions d @
              [\<lparr>version_id = vid, timestamp = now1, user = u, role = r, changes = ch,
                content_snapshot = snapshot\<rparr>],
            last_modified := now2\<rparr>)"

definition approve :: "Document \<Rightarrow> string \<Rightarrow> datetime \<Rightarrow> datetime \<Rightarrow> Document" where
  "approve d u now1 now2 =
     log_version
       (d\<lparr>approved := True, approver := Some u,
          sections := map (\<lambda>sec. sec\<lparr>locked := True\<rparr>) (sections d)\<rparr>)
       u ''approver'' ''Document approved'' now1 now2"

subsection \<open>Sequences of calls of the public methods\<close>

text \<open>
  One constructor per public mutating method of \<open>Document\<close>, carrying the call's
  arguments and the clock readings the call consumes.
\<close>

datatype op =
    AddSection string string string "int option"
  | RemoveSection string
  | UpdateSection string string bool datetime
  | LogVersion string string string datetime datetime
  | Approve string datetime datetime

fun apply_op :: "Document \<Rightarrow> op \<Rightarrow> Document" where
  "apply_op d (AddSection t c ct ord) = add_section d t c ct ord"
| "apply_op d (RemoveSection t) = remove_section d t"
| "apply_op d (UpdateSection t c ai now) = snd (update_section d t c ai now)"
| "apply_op d (LogVersion u r ch now1 now2) = log_version d u r ch now1 now2"
| "apply_op d (Approve u now1 now2) = approve d u now1 now2"

fun run :: "Document \<Rightarrow> op list \<Rightarrow> Document" where
  "run d [] = d"
| "run d (x # xs) = run (apply_op d x) xs"

text \<open>The approval invariant of the spec: an approved document has only locked sections.\<close>

definition lock_inv :: "Document \<Rightarrow> bool" where
  "lock_inv d = (approved d \<longrightarrow> list_all locked (sections d))"

text \<open>A call sequence that never calls \<open>add_section\<close> on an approved document.\<close>

fun no_add_when_approved :: "Document \<Rightarrow> op list \<Rightarrow> bool" where
  "no_add_when_approved d [] = True"
| "no_add_when_approved d (x # xs) =
     ((case x of AddSection _ _ _ _ \<Rightarrow> \<not> approved d | _ \<Rightarrow> True) \<and>
      no_add_when_approved (apply_op d x) xs)"

text \<open>The ordering invariant of the spec: each section's \<open>order\<close> is its index.\<close>

definition order_inv :: "Document \<Rightarrow> bool" where
  "order_inv d = (map order (sections d) = map int [0..<length (sections d)])"

text \<open>
  A call sequence in which every \<open>add_section\<close> leaves \<open>order\<close> out or passes the
  current number of sections, as \<open>enumerate\<close> does at every call site of the repository.
\<close>

fun adds_at_end :: "Document \<Rightarrow> op list \<Rightarrow> bool" where
  "adds_at_end d [] = True"
| "adds_at_end d (x # xs) =
     ((case x of
         AddSection _ _ _ ord \<Rightarrow> ord = None \<or> ord = Some (int (length (sections d)))
       | _ \<Rightarrow> True) \<and>
      adds_at_end (apply_op d x) xs)"

text \<open>A fixed clock reading for the concrete examples.\<close>

definition clock0 :: datetime where
  "clock0 = \<lparr>year = 2024, month = 1, day = 15, hour = 10, minute = 30, second = 0,
             microsecond = 0\<rparr>"


section \<open>Python strings\<close>

text \<open>
  A \<open>string\<close> is a list of characters, each standing for one code point below 256.
  \<open>is_space\<close> is \<open>str.isspace\<close> on one such character: the code points 9 to 13,
  28 to 32, 133 and 160.
\<close>

definition is_space :: "char \<Rightarrow> bool" where
  "is_space ch =
     (let n = (of_char ch :: nat)
      in (9 \<le> n \<and> n \<le> 13) \<or> (28 \<le> n \<and> n \<le> 32) \<or> n = 133 \<or> n = 160)"

text \<open>\<open>s.strip(chars)\<close> for a set of characters given as a predicate.\<close>

definition strip_chars :: "(char \<Rightarrow> bool) \<Rightarrow> string \<Rightarrow> string" where
  "strip_chars P s = rev (dropWhile P (rev (dropWhile P s)))"

definition py_strip :: "string \<Rightarrow> string" where
  "py_strip s = strip_chars is_space s"

definition startswith :: "string \<Rightarrow> string \<Rightarrow> bool" where
  "startswith s p = (take (length p) s = p)"

text \<open>
  \<open>s.split(sep)\<close> for a non-empty separator: \<open>cur\<close> holds the piece being read,
  reversed. (Python raises ValueError on an empty separator; the source only passes
  the literals \<open>"\n"\<close>, \<open>"\n\n"\<close>, \<open>","\<close> and \<open>"|"\<close>.)
\<close>

function split_from :: "string \<Rightarrow> string \<Rightarrow> string \<Rightarrow> string list" where
  "split_from sep cur [] = [rev cur]"
| "split_from sep cur (x # xs) =
     (if sep \<noteq> [] \<and> startswith (x # xs) sep
      then rev cur # split_from sep [] (drop (length sep) (x # xs))
      else split_from sep (x # cur) xs)"
  by pat_completeness auto
termination
  by (relation "measure (\<lambda>(sep, cur, s). length s)") auto

definition py_split :: "string \<Rightarrow> string \<Rightarrow> string list" where
  "py_split s sep = split_from sep [] s"

text \<open>\<open>sep.join(xs)\<close>.\<close>

fun py_join :: "string \<Rightarrow> string list \<Rightarrow> string" where
  "py_join sep [] = []"
| "py_join sep [x] = x"
| "py_join sep (x # y # ys) = x @ sep @ py_join sep (y # ys)"

section \<open>Translation (sopgen/translation.py)\<close>

definition SUPPORTED_LANGUAGES :: "(string \<times> string) list" where
  "SUPPORTED_LANGUAGES =
     [(''Hindi'', ''hi''), (''Tamil'', ''ta''), (''Telugu'', ''te''), (''Gujarati'', ''gu''),
      (''Marathi'', ''mr''), (''Bengali'', ''bn''), (''Spanish'', ''es''), (''French'', ''fr''),
      (''German'', ''de''), (''Arabic'', ''ar''), (''Chinese (Simplified)'', ''zh-CN''),
      (''Japanese'', ''ja''), (''English'', ''en'')]"

text \<open>
  The external service \<open>GoogleTranslator\<close> is a parameter: whether constructing a
  translator for a language pair succeeds, and what \<open>translate\<close> returns (\<open>None\<close>
  when it raises). Every use of the service is recorded in a log of calls.
\<close>

record translator =
  construct :: "string \<Rightarrow> string \<Rightarrow> bool"
  translate :: "string \<Rightarrow> string \<Rightarrow> string \<Rightarrow> string option"

datatype service_call = Construct string string | Translate string

text \<open>\<open>_split_text\<close>: the loop over the paragraphs, with the state \<open>(chunks, current_chunk)\<close>.\<close>

fun split_loop :: "nat \<Rightarrow> string list \<Rightarrow> string \<Rightarrow> string list \<Rightarrow> string list \<times> string" where
  "split_loop max_length chunks current_chunk [] = (chunks, current_chunk)"
| "split_loop max_length chunks current_chunk (para # paras) =
     (if length current_chunk + length para + 2 \<le> max_length
      then (if current_chunk \<noteq> []
            then split_loop max_length chunks (current_chunk @ ''\<newline>\<newline>'' @ para) paras
            else split_loop max_length chunks para paras)
      else (if current_chunk \<noteq> []
            then split_loop max_length (chunks @ [current_chunk]) para paras
            else split_loop max_length chunks para paras))"

definition split_text :: "string \<Rightarrow> nat \<Rightarrow> string list" where
  "split_text text max_length =
     (case split_loop max_length [] [] (py_split text ''\<newline>\<newline>'') of
        (chunks, current_chunk) \<Rightarrow>
          if current_chunk \<noteq> [] then chunks @ [current_chunk] else chunks)"

text \<open>
  The loop over the chunks: the translated chunks so far, or \<open>None\<close> once a call has
  raised (the loop stops there), and the calls made.
\<close>

fun translate_chunks ::
  "translator \<Rightarrow> string \<Rightarrow> string \<Rightarrow> string list \<Rightarrow> string list option \<times> service_call list" where
  "translate_chunks svc src tgt [] = (Some [], [])"
| "translate_chunks svc src tgt (chunk # chunks) =
     (if py_strip chunk \<noteq> []
      then (case translate svc src tgt chunk of
              None \<Rightarrow> (None, [Translate chunk])
            | Some r \<Rightarrow>
                (case translate_chunks svc src tgt chunks of
                   (res, calls) \<Rightarrow> (map_option ((#) r) res, Translate chunk # calls)))
      else (case translate_chunks svc src tgt chunks of
              (res, calls) \<Rightarrow> (map_option ((#) chunk) res, calls)))"

definition translation_error :: "string \<Rightarrow> string" where
  "translation_error text = ''[Translation Error: '' @ take 100 text @ ''...]''"

text \<open>The target code \<open>translate_text\<close> resolves: a supported language name maps to its
  code, anything else is taken as a code already.\<close>

definition target_code :: "string \<Rightarrow> string" where
  "target_code target_language =
     (case map_of SUPPORTED_LANGUAGES target_language of
        Some code \<Rightarrow> code
      | None \<Rightarrow> target_language)"

text \<open>\<open>translate_text\<close>: the returned string and the calls made to the service.\<close>

definition translate_text ::
  "translator \<Rightarrow> string \<Rightarrow> string \<Rightarrow> string \<Rightarrow> string \<times> service_call list" where
  "translate_text svc text target_language source_language =
     (if text = [] \<or> py_strip text = [] then (text, [])
      else if target_code target_language = ''en'' then (text, [])
      else if \<not> construct svc source_language (target_code target_language)
      then (translation_error text, [Construct source_language (target_code target_language)])
      else if length text \<le> 4500
      then (case translate svc source_language (target_code target_language) text of
              Some r \<Rightarrow>
                (r, [Construct source_language (target_code target_language), Translate text])
            | None \<Rightarrow>
                (translation_error text,
                 [Construct source_language (target_code target_language), Translate text]))
      else (case translate_chunks svc source_language (target_code target_language)
                   (split_text text 4500) of
              (Some rs, calls) \<Rightarrow>
                (py_join ''\<newline>\<newline>'' rs,
                 Construct source_language (target_code target_language) # calls)
            | (None, calls) \<Rightarrow>
                (translation_error text,
                 Construct source_language (target_code target_language) # calls)))"

text \<open>A service for the examples: it accepts every language pair and reverses the text.\<close>

definition reversing_service :: translator where
  "reversing_service = \<lparr>construct = (\<lambda>src tgt. True), translate = (\<lambda>src tgt s. Some (rev s))\<rparr>"

section \<open>More of Python's strings\<close>

text \<open>\<open>str.lower\<close> on the code points below 256: A to Z and the Latin-1 capitals.\<close>

definition lower_char :: "char \<Rightarrow> char" where
  "lower_char ch =
     (let n = (of_char ch :: nat)
      in if (65 \<le> n \<and> n \<le> 90) \<or> (192 \<le> n \<and> n \<le> 222 \<and> n \<noteq> 215)
         then char_of (n + 32) else ch)"

definition py_lower :: "string \<Rightarrow> string" where
  "py_lower s = map lower_char s"

text \<open>\<open>s.encode('utf-8')\<close> on the code points below 256; the result is a list of bytes.\<close>

definition utf8_char :: "char \<Rightarrow> string" where
  "utf8_char ch =
     (let n = (of_char ch :: nat)
      in if n < 128 then [ch] else [char_of (192 + n div 64), char_of (128 + n mod 64)])"

definition utf8_encode :: "string \<Rightarrow> string" where
  "utf8_encode s = concat (map utf8_char s)"

text \<open>Decimal digits of a natural number, and zero padding to a width.\<close>

fun dec :: "nat \<Rightarrow> string" where
  "dec n = (if n < 10 then [char_of (48 + n)] else dec (n div 10) @ [char_of (48 + n mod 10)])"

declare dec.simps [simp del]

definition zfill :: "nat \<Rightarrow> string \<Rightarrow> string" where
  "zfill w s = replicate (w - length s) (CHR ''0'') @ s"

text \<open>
  \<open>strftime('%Y-%m-%d %H:%M:%S')\<close> and \<open>strftime('%Y-%m-%d')\<close>, for years from 1000
  on (where \<open>%Y\<close> has four digits on every platform).
\<close>

definition strftime_date :: "datetime \<Rightarrow> string" where
  "strftime_date t =
     zfill 4 (dec (year t)) @ ''-'' @ zfill 2 (dec (month t)) @ ''-'' @ zfill 2 (dec (day t))"

definition strftime_datetime :: "datetime \<Rightarrow> string" where
  "strftime_datetime t =
     strftime_date t @ '' '' @ zfill 2 (dec (hour t)) @ '':'' @ zfill 2 (dec (minute t)) @ '':'' @
     zfill 2 (dec (second t))"

text \<open>Truth value of a Python value, as \<open>if v:\<close> tests it.\<close>

fun py_truthy :: "pyval \<Rightarrow> bool" where
  "py_truthy PNone = False"
| "py_truthy (PBool b) = b"
| "py_truthy (PInt i) = (i \<noteq> 0)"
| "py_truthy (PStr s) = (s \<noteq> [])"
| "py_truthy (PList xs) = (xs \<noteq> [])"
| "py_truthy (PDict kvs) = (kvs \<noteq> [])"

text \<open>
  \<open>str(v)\<close>, as an f-string inserts a value. The text Python prints for a list or a
  dictionary is the parameter \<open>repr\<close>.
\<close>

fun py_str :: "(pyval \<Rightarrow> string) \<Rightarrow> pyval \<Rightarrow> string" where
  "py_str repr PNone = ''None''"
| "py_str repr (PBool b) = (if b then ''True'' else ''False'')"
| "py_str repr (PInt i) = (if i < 0 then ''-'' @ dec (nat (- i)) else dec (nat i))"
| "py_str repr (PStr s) = s"
| "py_str repr (PList xs) = repr (PList xs)"
| "py_str repr (PDict kvs) = repr (PDict kvs)"

section \<open>Export (sopgen/export.py)\<close>

datatype error =
    ValueError string
  | IndexError string
  | LibraryError string

text \<open>The skip test of the section loops: \<open>not sec.content or not sec.content.strip()\<close>.\<close>

definition blank_content :: "Section \<Rightarrow> bool" where
  "blank_content sec = (content sec = [] \<or> py_strip (content sec) = [])"

subsection \<open>Markdown\<close>

text \<open>The lines one section appends to \<open>md_lines\<close> in \<open>to_markdown\<close>.\<close>

definition markdown_section :: "Section \<Rightarrow> string list" where
  "markdown_section sec =
     (if blank_content sec then []
      else [''## '' @ title sec @ ''\<newline>''] @
           (if content_type sec = ''text'' then [content sec]
            else if content_type sec = ''image''
            then [''!['' @ title sec @ '']('' @ content sec @ '')'']
            else if content_type sec = ''table'' then [content sec]
            else if content_type sec = ''flowchart''
            then [''```mermaid\<newline>'' @ content sec @ ''\<newline>```'']
            else if content_type sec = ''latex''
            then [''$$\<newline>'' @ content sec @ ''\<newline>$$'']
            else []) @
           [''\<newline>\<newline>''])"

text \<open>The line of one metadata key: \<open>if doc.metadata.get(key): md_lines.append(...)\<close>.\<close>

definition markdown_meta ::
  "(pyval \<Rightarrow> string) \<Rightarrow> (string \<times> pyval) list \<Rightarrow> string \<Rightarrow> string \<Rightarrow> string list" where
  "markdown_meta repr md key label =
     (case map_of md key of
        Some v \<Rightarrow> if py_truthy v then [''**'' @ label @ '':** '' @ py_str repr v @ ''\<newline>''] else []
      | None \<Rightarrow> [])"

text \<open>\<open>to_markdown\<close>; \<open>now\<close> is the reading of \<open>datetime.now()\<close> in the footer.\<close>

definition to_markdown :: "(pyval \<Rightarrow> string) \<Rightarrow> datetime \<Rightarrow> Document \<Rightarrow> string" where
  "to_markdown repr now doc =
     py_join ''\<newline>''
       ([''# '' @ doc_title doc @ ''\<newline>''] @
        (if doc_number doc \<noteq> [] then [''**Document Number:** '' @ doc_number doc @ ''\<newline>'']
         else []) @
        (if doc_metadata doc \<noteq> []
         then markdown_meta repr (doc_metadata doc) ''company'' ''Company'' @
              markdown_meta repr (doc_metadata doc) ''revision'' ''Revision'' @
              markdown_meta repr (doc_metadata doc) ''effective_date'' ''Effective Date''
         else []) @
        [''\<newline>---\<newline>\<newline>''] @
        concat (map markdown_section (sections doc)) @
        [''---\<newline>'',
         ''\<newline>*Document generated on '' @ strftime_datetime now @ ''*\<newline>''] @
        (if created_by doc \<noteq> [] then [''*Created by: '' @ created_by doc @ ''*\<newline>'']
         else []))"

subsection \<open>Spreadsheet\<close>

text \<open>
  \<open>lines = [line.strip() for line in content.split('\n') if line.strip()]\<close>, the
  first step of the table parser.
\<close>

definition table_lines :: "string \<Rightarrow> string list" where
  "table_lines c = filter (\<lambda>l. l \<noteq> []) (map py_strip (py_split c ''\<newline>''))"

text \<open>\<open>[c.strip() for c in line.strip('|').split('|')]\<close>.\<close>

definition pipe_cells :: "string \<Rightarrow> string list" where
  "pipe_cells line = map py_strip (py_split (strip_chars (\<lambda>ch. ch = CHR ''|'') line) ''|'')"

definition comma_cells :: "string \<Rightarrow> string list" where
  "comma_cells line = map py_strip (py_split line '','')"

text \<open>
  The table parser inside \<open>to_excel\<close>: header and data rows. Its \<open>else\<close> branch reads
  \<open>lines[0]\<close> with no test that \<open>lines\<close> is non-empty, which raises IndexError.
\<close>

definition parse_table :: "string list \<Rightarrow> error + (string list \<times> string list list)" where
  "parse_table lines =
     (if lines \<noteq> [] \<and> startswith (hd lines) ''|''
      then Inr (pipe_cells (hd lines),
                map pipe_cells (filter (\<lambda>l. startswith l ''|'') (drop 2 lines)))
      else (case lines of
              [] \<Rightarrow> Inl (IndexError ''list index out of range'')
            | l0 # rest \<Rightarrow> Inr (comma_cells l0, map comma_cells rest)))"

text \<open>
  A worksheet as the calls that built it: its name and the cells written, each with row,
  column, text and whether the bold format was passed.
\<close>

record worksheet =
  ws_name :: string
  ws_cells :: "(nat \<times> nat \<times> string \<times> bool) list"

text \<open>
  The library \<open>xlsxwriter\<close> is a parameter: its check of a new sheet's name against
  the names in the workbook (\<open>Some\<close> error when \<open>add_worksheet\<close> raises) and the bytes
  it writes for a workbook.
\<close>

record xlsxwriter =
  check_sheetname :: "string list \<Rightarrow> string \<Rightarrow> error option"
  save :: "worksheet list \<Rightarrow> string"

definition header_cells :: "string list \<Rightarrow> (nat \<times> nat \<times> string \<times> bool) list" where
  "header_cells headers = map (\<lambda>(col, h). (0, col, h, True)) (zip [0..<length headers] headers)"

definition row_cells :: "nat \<Rightarrow> string list \<Rightarrow> (nat \<times> nat \<times> string \<times> bool) list" where
  "row_cells row_idx row = map (\<lambda>(col, v). (row_idx, col, v, False)) (zip [0..<length row] row)"

definition data_cells :: "string list list \<Rightarrow> (nat \<times> nat \<times> string \<times> bool) list" where
  "data_cells rows =
     concat (map (\<lambda>(row_idx, row). row_cells row_idx row) (zip [1..<Suc (length rows)] rows))"

definition overview_sheet :: "Document \<Rightarrow> worksheet" where
  "overview_sheet doc =
     \<lparr>ws_name = ''Overview'',
      ws_cells = [(0, 0, ''SOP Title'', True), (0, 1, doc_title doc, False),
                  (1, 0, ''Document Number'', True), (1, 1, doc_number doc, False),
                  (2, 0, ''Created'', True), (2, 1, strftime_date (created_at doc), False)]\<rparr>"

definition sheet_name :: "Section \<Rightarrow> nat \<Rightarrow> string" where
  "sheet_name sec sheet_count =
     (if length (title sec) > 25 then take 25 (title sec) @ ''_'' @ dec sheet_count
      else take 31 (title sec))"

text \<open>The section loop of \<open>to_excel\<close>, with the state \<open>sheet_count\<close> and the workbook.\<close>

fun excel_sections ::
  "xlsxwriter \<Rightarrow> nat \<Rightarrow> worksheet list \<Rightarrow> Section list \<Rightarrow> error + worksheet list" where
  "excel_sections lib sheet_count wb [] = Inr wb"
| "excel_sections lib sheet_count wb (sec # secs) =
     (if content_type sec = ''table'' \<and> content sec \<noteq> []
      then (case check_sheetname lib (map ws_name wb) (sheet_name sec (Suc sheet_count)) of
              Some e \<Rightarrow> Inl e
            | None \<Rightarrow>
                (case parse_table (table_lines (content sec)) of
                   Inl e \<Rightarrow> Inl e
                 | Inr (headers, data_rows) \<Rightarrow>
                     excel_sections lib (Suc sheet_count)
                       (wb @ [\<lparr>ws_name = sheet_name sec (Suc sheet_count),
                               ws_cells = header_cells headers @ data_cells data_rows\<rparr>])
                       secs))
      else excel_sections lib sheet_count wb secs)"

text \<open>\<open>_to_csv\<close>, the fallback of \<open>to_excel\<close> when \<open>xlsxwriter\<close> cannot be imported.\<close>

definition csv_section :: "Section \<Rightarrow> string list" where
  "csv_section sec =
     (if content_type sec = ''table'' \<and> content sec \<noteq> []
      then [''\<newline># '' @ title sec, content sec] else [])"

definition to_csv :: "Document \<Rightarrow> string" where
  "to_csv doc =
     py_join ''\<newline>''
       ([''# '' @ doc_title doc, ''# Document Number: '' @ doc_number doc @ ''\<newline>''] @
        concat (map csv_section (sections doc)))"

text \<open>\<open>to_excel\<close>; \<open>None\<close> for the library is the ImportError branch.\<close>

definition to_excel :: "xlsxwriter option \<Rightarrow> Document \<Rightarrow> error + string" where
  "to_excel xl doc =
     (case xl of
        None \<Rightarrow> Inr (utf8_encode (to_csv doc))
      | Some lib \<Rightarrow>
          (case excel_sections lib 0 [overview_sheet doc] (sections doc) of
             Inl e \<Rightarrow> Inl e
           | Inr wb \<Rightarrow> Inr (save lib wb)))"

subsection \<open>Format dispatch\<close>

text \<open>
  \<open>to_docx\<close>, \<open>to_pdf\<close> and \<open>to_html\<close> build their output through the libraries
  python-docx, pdfkit or weasyprint, and markdown2; \<open>export_document\<close> reaches them as
  methods of the exporter, and they are parameters here. \<open>to_html\<close> returns text,
  which \<open>export_document\<close> encodes; the other two return bytes.
\<close>

record renderers =
  to_docx :: "Document \<Rightarrow> error + string"
  to_pdf :: "Document \<Rightarrow> error + string"
  to_html :: "Document \<Rightarrow> error + string"

definition supported_formats :: "string list" where
  "supported_formats = [''docx'', ''pdf'', ''html'', ''excel'', ''markdown'']"

definition export_document ::
  "renderers \<Rightarrow> xlsxwriter option \<Rightarrow> (pyval \<Rightarrow> string) \<Rightarrow> datetime \<Rightarrow> Document \<Rightarrow> string \<Rightarrow>
   error + string" where
  "export_document rs xl repr now document format =
     (let format = py_lower format
      in if format = ''docx'' then to_docx rs document
         else if format = ''pdf'' then to_pdf rs document
         else if format = ''html''
         then (case to_html rs document of Inl e \<Rightarrow> Inl e | Inr html \<Rightarrow> Inr (utf8_encode html))
         else if format = ''excel'' then to_excel xl document
         else if format = ''markdown'' then Inr (utf8_encode (to_markdown repr now document))
         else Inl (ValueError (''Unsupported format: '' @ format)))"

text \<open>
  Parameters for the concrete examples: a \<open>repr\<close>, an \<open>xlsxwriter\<close> that accepts every
  sheet name and writes the sheet names, and renderers that are the ImportError fallback
  of \<open>to_docx\<close> (the markdown text, encoded) and placeholders for the other two.
\<close>

definition example_repr :: "pyval \<Rightarrow> string" where
  "example_repr v = ''<object>''"

definition example_xlsxwriter :: xlsxwriter where
  "example_xlsxwriter =
     \<lparr>check_sheetname = (\<lambda>names name. None), save = (\<lambda>wb. py_join '','' (map ws_name wb))\<rparr>"

definition example_renderers :: renderers where
  "example_renderers =
     \<lparr>to_docx = (\<lambda>doc. Inr (utf8_encode (to_markdown example_repr clock0 doc))),
      to_pdf = (\<lambda>doc. Inr ''%PDF''),
      to_html = (\<lambda>doc. Inr ''<!DOCTYPE html>'')\<rparr>"

text \<open>Two clock readings agree to the second: \<open>strftime\<close> shows no microseconds.\<close>

definition same_second :: "datetime \<Rightarrow> datetime \<Rightarrow> bool" where
  "same_second a b =
     (year a = year b \<and> month a = month b \<and> day a = day b \<and> hour a = hour b \<and>
      minute a = minute b \<and> second a = second b)"

text \<open>A document with one table section whose content is three spaces.\<close>

definition blank_table_doc :: Document where
  "blank_table_doc =
     add_section (new_document ''D'' clock0 clock0) ''T'' ''   '' ''table'' None"

section \<open>The document as objects in a store\<close>

text \<open>
  Python's \<open>Section\<close> objects are mutable and reached through references, and a snapshot
  is only independent of the live document if it holds other objects. This second model
  keeps the objects in a store: a \<open>Section\<close> object at an address, with its
  \<open>metadata\<close> dictionary an object of its own at another address. The values inside a
  dictionary are plain values. A new object takes the address \<open>next_addr\<close>, which no
  reachable object has.
\<close>

record section_obj =
  obj_title :: string
  obj_content :: string
  obj_content_type :: string
  obj_ai_generated :: bool
  obj_locked :: bool
  obj_order :: int
  obj_metadata :: nat

record store =
  secs :: "nat \<Rightarrow> section_obj"
  dicts :: "nat \<Rightarrow> (string \<times> pyval) list"
  next_addr :: nat

record version_ref =
  r_version_id :: int
  r_timestamp :: datetime
  r_user :: string
  r_role :: string
  r_changes :: string
  r_snapshot :: "nat list"

record document_ref =
  r_title :: string
  r_doc_number :: string
  r_sections :: "nat list"
  r_created_by :: string
  r_created_at :: datetime
  r_last_modified :: datetime
  r_versions :: "version_ref list"
  r_approved :: bool
  r_approver :: "string option"
  r_metadata :: "(string \<times> pyval) list"
  r_template_name :: string

text \<open>The \<open>Section\<close> value an address stands for, and the document a state stands for.\<close>

definition deref :: "store \<Rightarrow> nat \<Rightarrow> Section" where
  "deref h a =
     \<lparr>title = obj_title (secs h a), content = obj_content (secs h a),
      content_type = obj_content_type (secs h a), ai_generated = obj_ai_generated (secs h a),
      locked = obj_locked (secs h a), order = obj_order (secs h a),
      metadata = dicts h (obj_metadata (secs h a))\<rparr>"

definition version_of :: "store \<Rightarrow> version_ref \<Rightarrow> DocumentVersion" where
  "version_of h v =
     \<lparr>version_id = r_version_id v, timestamp = r_timestamp v, user = r_user v,
      role = r_role v, changes = r_changes v,
      content_snapshot = map (deref h) (r_snapshot v)\<rparr>"

definition document_of :: "store \<times> document_ref \<Rightarrow> Document" where
  "document_of st =
     (case st of (h, r) \<Rightarrow>
        \<lparr>doc_title = r_title r, doc_number = r_doc_number r,
         sections = map (deref h) (r_sections r), created_by = r_created_by r,
         created_at = r_created_at r, last_modified = r_last_modified r,
         versions = map (version_of h) (r_versions r), approved = r_approved r,
         approver = r_approver r, doc_metadata = r_metadata r,
         template_name = r_template_name r\<rparr>)"

definition alloc_dict :: "store \<Rightarrow> (string \<times> pyval) list \<Rightarrow> nat \<times> store" where
  "alloc_dict h kvs =
     (next_addr h, h\<lparr>dicts := (dicts h)(next_addr h := kvs), next_addr := Suc (next_addr h)\<rparr>)"

definition alloc_section :: "store \<Rightarrow> section_obj \<Rightarrow> nat \<times> store" where
  "alloc_section h obj =
     (next_addr h, h\<lparr>secs := (secs h)(next_addr h := obj), next_addr := Suc (next_addr h)\<rparr>)"

text \<open>A write to one object: \<open>sec.field = value\<close>.\<close>

definition write_section :: "store \<Rightarrow> nat \<Rightarrow> (section_obj \<Rightarrow> section_obj) \<Rightarrow> store" where
  "write_section h a f = h\<lparr>secs := (secs h)(a := f (secs h a))\<rparr>"

subsection \<open>The methods of Document on the store\<close>

definition add_section_ref ::
  "store \<times> document_ref \<Rightarrow> string \<Rightarrow> string \<Rightarrow> string \<Rightarrow> int option \<Rightarrow> store \<times> document_ref" where
  "add_section_ref st t c ct ord =
     (case st of (h, r) \<Rightarrow>
        let k = (case ord of None \<Rightarrow> int (length (r_sections r)) | Some k \<Rightarrow> k);
            (m, h1) = alloc_dict h [];
            (a, h2) = alloc_section h1
                        \<lparr>obj_title = t, obj_content = c, obj_content_type = ct,
                         obj_ai_generated = False, obj_locked = False, obj_order = k,
                         obj_metadata = m\<rparr>
        in (h2, r\<lparr>r_sections := sort_key (\<lambda>x. obj_order (secs h2 x)) (r_sections r @ [a])\<rparr>))"

text \<open>\<open>_reorder_sections\<close>: one write per entry of the list, in list order.\<close>

fun set_orders :: "store \<Rightarrow> nat \<Rightarrow> nat list \<Rightarrow> store" where
  "set_orders h i [] = h"
| "set_orders h i (a # as) =
     set_orders (write_section h a (\<lambda>obj. obj\<lparr>obj_order := int i\<rparr>)) (Suc i) as"

definition remove_section_ref :: "store \<times> document_ref \<Rightarrow> string \<Rightarrow> store \<times> document_ref" where
  "remove_section_ref st t =
     (case st of (h, r) \<Rightarrow>
        let keep = filter (\<lambda>a. obj_title (secs h a) \<noteq> t) (r_sections r)
        in (set_orders h 0 keep, r\<lparr>r_sections := keep\<rparr>))"

definition get_section_ref :: "store \<times> document_ref \<Rightarrow> string \<Rightarrow> nat option" where
  "get_section_ref st t =
     (case st of (h, r) \<Rightarrow> find (\<lambda>a. obj_title (secs h a) = t) (r_sections r))"

definition update_section_ref ::
  "store \<times> document_ref \<Rightarrow> string \<Rightarrow> string \<Rightarrow> bool \<Rightarrow> datetime \<Rightarrow>
   bool \<times> store \<times> document_ref" where
  "update_section_ref st t c ai now =
     (case st of (h, r) \<Rightarrow>
        (case get_section_ref st t of
           None \<Rightarrow> (False, st)
         | Some a \<Rightarrow>
             if \<not> obj_locked (secs h a)
             then (True,
                   write_section h a (\<lambda>obj. obj\<lparr>obj_content := c, obj_ai_generated := ai\<rparr>),
                   r\<lparr>r_last_modified := now\<rparr>)
             else (False, st)))"

text \<open>
  \<open>Section(**asdict(sec))\<close>: \<open>asdict\<close> copies the metadata dictionary recursively
  into a new dictionary, and the constructor makes a new \<open>Section\<close> that holds it.
\<close>

definition copy_section :: "store \<Rightarrow> nat \<Rightarrow> nat \<times> store" where
  "copy_section h a =
     (let (m, h1) = alloc_dict h (dicts h (obj_metadata (secs h a)))
      in alloc_section h1 ((secs h a)\<lparr>obj_metadata := m\<rparr>))"

fun snapshot_ref :: "store \<Rightarrow> nat list \<Rightarrow> nat list \<times> store" where
  "snapshot_ref h [] = ([], h)"
| "snapshot_ref h (a # as) =
     (let (a', h1) = copy_section h a;
          (rest, h2) = snapshot_ref h1 as
      in (a' # rest, h2))"

definition log_version_ref ::
  "store \<times> document_ref \<Rightarrow> string \<Rightarrow> string \<Rightarrow> string \<Rightarrow> datetime \<Rightarrow> datetime \<Rightarrow>
   store \<times> document_ref" where
  "log_version_ref st u ro ch now1 now2 =
     (case st of (h, r) \<Rightarrow>
        let vid = int (length (r_versions r)) + 1;
            (snapshot, h1) = snapshot_ref h (r_sections r)
        in (h1, r\<lparr>r_versions := r_versions r @
                     [\<lparr>r_version_id = vid, r_timestamp = now1, r_user = u, r_role = ro,
                       r_changes = ch, r_snapshot = snapshot\<rparr>],
                   r_last_modified := now2\<rparr>))"

fun lock_all :: "store \<Rightarrow> nat list \<Rightarrow> store" where
  "lock_all h [] = h"
| "lock_all h (a # as) = lock_all (write_section h a (\<lambda>obj. obj\<lparr>obj_locked := True\<rparr>)) as"

definition approve_ref ::
  "store \<times> document_ref \<Rightarrow> string \<Rightarrow> datetime \<Rightarrow> datetime \<Rightarrow> store \<times> document_ref" where
  "approve_ref st u now1 now2 =
     (case st of (h, r) \<Rightarrow>
        log_version_ref (lock_all h (r_sections r), r\<lparr>r_approved := True, r_approver := Some u\<rparr>)
          u ''approver'' ''Document approved'' now1 now2)"

fun apply_op_ref :: "store \<times> document_ref \<Rightarrow> op \<Rightarrow> store \<times> document_ref" where
  "apply_op_ref st (AddSection t c ct ord) = add_section_ref st t c ct ord"
| "apply_op_ref st (RemoveSection t) = remove_section_ref st t"
| "apply_op_ref st (UpdateSection t c ai now) = snd (update_section_ref st t c ai now)"
| "apply_op_ref st (LogVersion u ro ch now1 now2) = log_version_ref st u ro ch now1 now2"
| "apply_op_ref st (Approve u now1 now2) = approve_ref st u now1 now2"

subsection \<open>Writes through references to the live sections\<close>

text \<open>
  What a caller holding \<open>doc.sections\<close> can do to the live document besides calling
  its methods: assign a field of the section at an index, assign an item of its metadata
  dictionary, swap two entries of the list, and the administrative unlock of the
  application (\<open>doc.approved = False\<close>, then \<open>sec.locked = False\<close> for every section).
  An index out of range raises IndexError and leaves the state as it is.
\<close>

datatype mutation =
    SetTitle nat string
  | SetContent nat string
  | SetContentType nat string
  | SetAiGenerated nat bool
  | SetLocked nat bool
  | SetOrder nat int
  | SetMetadataItem nat string pyval
  | SwapSections nat nat
  | Unlock

fun dict_set :: "string \<Rightarrow> pyval \<Rightarrow> (string \<times> pyval) list \<Rightarrow> (string \<times> pyval) list" where
  "dict_set k v [] = [(k, v)]"
| "dict_set k v ((k', v') # kvs) =
     (if k' = k then (k, v) # kvs else (k', v') # dict_set k v kvs)"

definition write_at ::
  "store \<times> document_ref \<Rightarrow> nat \<Rightarrow> (section_obj \<Rightarrow> section_obj) \<Rightarrow> store \<times> document_ref" where
  "write_at st i f =
     (case st of (h, r) \<Rightarrow>
        if i < length (r_sections r) then (write_section h (r_sections r ! i) f, r) else st)"

fun unlock_all :: "store \<Rightarrow> nat list \<Rightarrow> store" where
  "unlock_all h [] = h"
| "unlock_all h (a # as) = unlock_all (write_section h a (\<lambda>obj. obj\<lparr>obj_locked := False\<rparr>)) as"

fun mutate :: "store \<times> document_ref \<Rightarrow> mutation \<Rightarrow> store \<times> document_ref" where
  "mutate st (SetTitle i t) = write_at st i (\<lambda>obj. obj\<lparr>obj_title := t\<rparr>)"
| "mutate st (SetContent i c) = write_at st i (\<lambda>obj. obj\<lparr>obj_content := c\<rparr>)"
| "mutate st (SetContentType i ct) = write_at st i (\<lambda>obj. obj\<lparr>obj_content_type := ct\<rparr>)"
| "mutate st (SetAiGenerated i b) = write_at st i (\<lambda>obj. obj\<lparr>obj_ai_generated := b\<rparr>)"
| "mutate st (SetLocked i b) = write_at st i (\<lambda>obj. obj\<lparr>obj_locked := b\<rparr>)"
| "mutate st (SetOrder i k) = write_at st i (\<lambda>obj. obj\<lparr>obj_order := k\<rparr>)"
| "mutate (h, r) (SetMetadataItem i k v) =
     (if i < length (r_sections r)
      then (h\<lparr>dicts := (dicts h)(obj_metadata (secs h (r_sections r ! i)) :=
                 dict_set k v (dicts h (obj_metadata (secs h (r_sections r ! i)))))\<rparr>, r)
      else (h, r))"
| "mutate (h, r) (SwapSections i j) =
     (if i < length (r_sections r) \<and> j < length (r_sections r)
      then (h, r\<lparr>r_sections := (r_sections r)[i := r_sections r ! j, j := r_sections r ! i]\<rparr>)
      else (h, r))"
| "mutate (h, r) Unlock = (unlock_all h (r_sections r), r\<lparr>r_approved := False\<rparr>)"

datatype step = Method op | Direct mutation

fun apply_step :: "store \<times> document_ref \<Rightarrow> step \<Rightarrow> store \<times> document_ref" where
  "apply_step st (Method x) = apply_op_ref st x"
| "apply_step st (Direct m) = mutate st m"

fun run_ref :: "store \<times> document_ref \<Rightarrow> step list \<Rightarrow> store \<times> document_ref" where
  "run_ref st [] = st"
| "run_ref st (x # xs) = run_ref (apply_step st x) xs"

text \<open>The number of versions a sequence of steps logs: one per \<open>log_version\<close> and one per
  \<open>approve\<close>, which calls it.\<close>

fun logs :: "step \<Rightarrow> nat" where
  "logs (Method (LogVersion u ro ch now1 now2)) = 1"
| "logs (Method (Approve u now1 now2)) = 1"
| "logs _ = 0"

definition count_logs :: "step list \<Rightarrow> nat" where
  "count_logs steps = sum_list (map logs steps)"

text \<open>
  Every object the live document reaches was allocated: the addresses of its sections and
  of their metadata dictionaries lie below \<open>next_addr\<close>.
\<close>

definition allocated :: "store \<times> document_ref \<Rightarrow> bool" where
  "allocated st =
     (case st of (h, r) \<Rightarrow>
        list_all (\<lambda>a. a < next_addr h \<and> obj_metadata (secs h a) < next_addr h) (r_sections r))"

text \<open>An empty store and \<open>Document(title=t)\<close> in it.\<close>

definition empty_store :: store where
  "empty_store =
     \<lparr>secs = (\<lambda>a. \<lparr>obj_title = [], obj_content = [], obj_content_type = [],
                    obj_ai_generated = False, obj_locked = False, obj_order = 0,
                    obj_metadata = 0\<rparr>),
      dicts = (\<lambda>a. []), next_addr = 0\<rparr>"

definition new_document_ref :: "string \<Rightarrow> datetime \<Rightarrow> datetime \<Rightarrow> store \<times> document_ref" where
  "new_document_ref t now1 now2 =
     (empty_store,
      \<lparr>r_title = t, r_doc_number = [], r_sections = [], r_created_by = [],
       r_created_at = now1, r_last_modified = now2, r_versions = [], r_approved = False,
       r_approver = None, r_metadata = [], r_template_name = []\<rparr>)"

text \<open>
  Separation of the live document from a set \<open>S\<close> of section addresses and a set \<open>M\<close>
  of dictionary addresses (those of a stored snapshot): the live sections and their
  dictionaries are allocated and outside \<open>S\<close> and \<open>M\<close>, which are allocated too.
\<close>

definition separate :: "nat set \<Rightarrow> nat set \<Rightarrow> store \<times> document_ref \<Rightarrow> bool" where
  "separate S M st =
     (case st of (h, r) \<Rightarrow>
        (\<forall>a \<in> set (r_sections r).
           a < next_addr h \<and> a \<notin> S \<and>
           obj_metadata (secs h a) < next_addr h \<and> obj_metadata (secs h a) \<notin> M) \<and>
        (\<forall>a \<in> S. a < next_addr h) \<and> (\<forall>m \<in> M. m < next_addr h))"

text \<open>The objects at \<open>S\<close> and \<open>M\<close> are the same in two stores.\<close>

definition unchanged_on :: "nat set \<Rightarrow> nat set \<Rightarrow> store \<Rightarrow> store \<Rightarrow> bool" where
  "unchanged_on S M h h' =
     ((\<forall>a \<in> S. secs h' a = secs h a) \<and> (\<forall>m \<in> M. dicts h' m = dicts h m))"

text \<open>A state for the examples: a new document with one section.\<close>

definition example_state :: "store \<times> document_ref" where
  "example_state =
     add_section_ref (new_document_ref ''D'' clock0 clock0) ''A'' ''a'' ''text'' None"

definition example_steps :: "step list" where
  "example_steps =
     [Direct (SetContent 0 ''changed''), Direct (SetLocked 0 True),
      Direct (SetMetadataItem 0 ''reviewed'' (PBool True)), Direct (SetOrder 0 7),
      Method (Approve ''boss'' clock0 clock0)]"

section \<open>Serialisation (to_dict and from_dict in sopgen/models.py)\<close>

subsection \<open>ISO 8601 text of a naive datetime\<close>

definition is_leap :: "nat \<Rightarrow> bool" where
  "is_leap y = (y mod 4 = 0 \<and> (y mod 100 \<noteq> 0 \<or> y mod 400 = 0))"

definition days_in_month :: "nat \<Rightarrow> nat \<Rightarrow> nat" where
  "days_in_month y m =
     (if m = 2 then (if is_leap y then 29 else 28)
      else if m = 4 \<or> m = 6 \<or> m = 9 \<or> m = 11 then 30 else 31)"

text \<open>The ranges the constructor of \<open>datetime\<close> enforces.\<close>

definition valid_datetime :: "datetime \<Rightarrow> bool" where
  "valid_datetime t =
     (1 \<le> year t \<and> year t \<le> 9999 \<and> 1 \<le> month t \<and> month t \<le> 12 \<and>
      1 \<le> day t \<and> day t \<le> days_in_month (year t) (month t) \<and>
      hour t < 24 \<and> minute t < 60 \<and> second t < 60 \<and> microsecond t < 1000000)"

text \<open>\<open>datetime.isoformat()\<close>: the microseconds are printed only when not zero.\<close>

definition isoformat :: "datetime \<Rightarrow> string" where
  "isoformat t =
     zfill 4 (dec (year t)) @ ''-'' @ zfill 2 (dec (month t)) @ ''-'' @ zfill 2 (dec (day t)) @
     ''T'' @ zfill 2 (dec (hour t)) @ '':'' @ zfill 2 (dec (minute t)) @ '':'' @
     zfill 2 (dec (second t)) @
     (if microsecond t \<noteq> 0 then ''.'' @ zfill 6 (dec (microsecond t)) else [])"

definition is_digit :: "char \<Rightarrow> bool" where
  "is_digit ch = (48 \<le> (of_char ch :: nat) \<and> (of_char ch :: nat) \<le> 57)"

definition digits_val :: "string \<Rightarrow> nat" where
  "digits_val s = foldl (\<lambda>acc ch. 10 * acc + (of_char ch - 48)) 0 s"

definition parse_nat :: "string \<Rightarrow> nat option" where
  "parse_nat s = (if s \<noteq> [] \<and> list_all is_digit s then Some (digits_val s) else None)"

text \<open>
  \<open>datetime.fromisoformat\<close> on the two layouts that \<open>isoformat\<close> produces for a naive
  datetime, \<open>YYYY-MM-DDTHH:MM:SS\<close> and the same followed by \<open>.ffffff\<close>; the fields are
  checked as the constructor checks them. \<open>None\<close> is ValueError, and here also any
  other layout that Python would accept.
\<close>

definition fromisoformat :: "string \<Rightarrow> datetime option" where
  "fromisoformat s =
     (if (length s = 19 \<or> (length s = 26 \<and> s ! 19 = CHR ''.'')) \<and>
         s ! 4 = CHR ''-'' \<and> s ! 7 = CHR ''-'' \<and> s ! 10 = CHR ''T'' \<and>
         s ! 13 = CHR '':'' \<and> s ! 16 = CHR '':''
      then do {
        y \<leftarrow> parse_nat (take 4 s);
        mo \<leftarrow> parse_nat (take 2 (drop 5 s));
        d \<leftarrow> parse_nat (take 2 (drop 8 s));
        h \<leftarrow> parse_nat (take 2 (drop 11 s));
        mi \<leftarrow> parse_nat (take 2 (drop 14 s));
        se \<leftarrow> parse_nat (take 2 (drop 17 s));
        us \<leftarrow> (if length s = 26 then parse_nat (drop 20 s) else Some 0);
        (if valid_datetime \<lparr>year = y, month = mo, day = d, hour = h, minute = mi,
                             second = se, microsecond = us\<rparr>
         then Some \<lparr>year = y, month = mo, day = d, hour = h, minute = mi, second = se,
                    microsecond = us\<rparr>
         else None)
      }
      else None)"

subsection \<open>Dictionaries\<close>

text \<open>
  Reading a keyword argument of a dataclass constructor out of a dictionary: a key that is
  missing takes the field's default when it has one. A value of another type than the
  field's annotation would make an ill-typed object in Python; the typed records here
  cannot hold one, and the result is \<open>None\<close>, as it is where Python raises.
\<close>

definition get_str :: "(string \<times> pyval) list \<Rightarrow> string \<Rightarrow> string option \<Rightarrow> string option" where
  "get_str kvs k dflt =
     (case map_of kvs k of None \<Rightarrow> dflt | Some (PStr s) \<Rightarrow> Some s | Some _ \<Rightarrow> None)"

definition get_bool :: "(string \<times> pyval) list \<Rightarrow> string \<Rightarrow> bool option \<Rightarrow> bool option" where
  "get_bool kvs k dflt =
     (case map_of kvs k of None \<Rightarrow> dflt | Some (PBool b) \<Rightarrow> Some b | Some _ \<Rightarrow> None)"

definition get_int :: "(string \<times> pyval) list \<Rightarrow> string \<Rightarrow> int option \<Rightarrow> int option" where
  "get_int kvs k dflt =
     (case map_of kvs k of None \<Rightarrow> dflt | Some (PInt i) \<Rightarrow> Some i | Some _ \<Rightarrow> None)"

definition get_dict ::
  "(string \<times> pyval) list \<Rightarrow> string \<Rightarrow> (string \<times> pyval) list option \<Rightarrow>
   (string \<times> pyval) list option" where
  "get_dict kvs k dflt =
     (case map_of kvs k of None \<Rightarrow> dflt | Some (PDict d) \<Rightarrow> Some d | Some _ \<Rightarrow> None)"

definition get_list :: "(string \<times> pyval) list \<Rightarrow> string \<Rightarrow> pyval list option" where
  "get_list kvs k = (case map_of kvs k of Some (PList xs) \<Rightarrow> Some xs | _ \<Rightarrow> None)"

text \<open>\<open>datetime.fromisoformat(data[k])\<close>: the key must be there and hold a string.\<close>

definition get_datetime :: "(string \<times> pyval) list \<Rightarrow> string \<Rightarrow> datetime option" where
  "get_datetime kvs k = (case map_of kvs k of Some (PStr s) \<Rightarrow> fromisoformat s | _ \<Rightarrow> None)"

text \<open>\<open>cls(**data)\<close> raises TypeError on a keyword that is not a field.\<close>

definition only_keys :: "(string \<times> pyval) list \<Rightarrow> string list \<Rightarrow> bool" where
  "only_keys kvs names = list_all (\<lambda>kv. fst kv \<in> set names) kvs"

subsection \<open>Section\<close>

text \<open>\<open>Section.to_dict\<close> is \<open>asdict(self)\<close>: the fields in declaration order.\<close>

definition section_to_dict :: "Section \<Rightarrow> pyval" where
  "section_to_dict sec =
     PDict [(''title'', PStr (title sec)), (''content'', PStr (content sec)),
            (''content_type'', PStr (content_type sec)),
            (''ai_generated'', PBool (ai_generated sec)), (''locked'', PBool (locked sec)),
            (''order'', PInt (order sec)), (''metadata'', PDict (metadata sec))]"

definition section_fields :: "string list" where
  "section_fields =
     [''title'', ''content'', ''content_type'', ''ai_generated'', ''locked'', ''order'',
      ''metadata'']"

text \<open>\<open>Section.from_dict\<close> is \<open>cls(**data)\<close>: only \<open>title\<close> has no default.\<close>

definition section_from_dict :: "pyval \<Rightarrow> Section option" where
  "section_from_dict v =
     (case v of
        PDict kvs \<Rightarrow>
          if only_keys kvs section_fields
          then do {
            t \<leftarrow> get_str kvs ''title'' None;
            c \<leftarrow> get_str kvs ''content'' (Some []);
            ct \<leftarrow> get_str kvs ''content_type'' (Some ''text'');
            ai \<leftarrow> get_bool kvs ''ai_generated'' (Some False);
            l \<leftarrow> get_bool kvs ''locked'' (Some False);
            k \<leftarrow> get_int kvs ''order'' (Some 0);
            md \<leftarrow> get_dict kvs ''metadata'' (Some []);
            Some \<lparr>title = t, content = c, content_type = ct, ai_generated = ai, locked = l,
                  order = k, metadata = md\<rparr>
          }
          else None
      | _ \<Rightarrow> None)"

subsection \<open>DocumentVersion\<close>

definition version_to_dict :: "DocumentVersion \<Rightarrow> pyval" where
  "version_to_dict ver =
     PDict [(''version_id'', PInt (version_id ver)),
            (''timestamp'', PStr (isoformat (timestamp ver))),
            (''user'', PStr (user ver)), (''role'', PStr (role ver)),
            (''changes'', PStr (changes ver)),
            (''content_snapshot'', PList (map section_to_dict (content_snapshot ver)))]"

definition version_fields :: "string list" where
  "version_fields =
     [''version_id'', ''timestamp'', ''user'', ''role'', ''changes'', ''content_snapshot'']"

text \<open>\<open>DocumentVersion.from_dict\<close>: no field of \<open>DocumentVersion\<close> has a default.\<close>

definition version_from_dict :: "pyval \<Rightarrow> DocumentVersion option" where
  "version_from_dict v =
     (case v of
        PDict kvs \<Rightarrow> do {
          ts \<leftarrow> get_datetime kvs ''timestamp'';
          raw \<leftarrow> get_list kvs ''content_snapshot'';
          snap \<leftarrow> those (map section_from_dict raw);
          (if only_keys kvs version_fields
           then do {
             vid \<leftarrow> get_int kvs ''version_id'' None;
             u \<leftarrow> get_str kvs ''user'' None;
             r \<leftarrow> get_str kvs ''role'' None;
             ch \<leftarrow> get_str kvs ''changes'' None;
             Some \<lparr>version_id = vid, timestamp = ts, user = u, role = r, changes = ch,
                   content_snapshot = snap\<rparr>
           }
           else None)
        }
      | _ \<Rightarrow> None)"

subsection \<open>Document\<close>

definition to_dict :: "Document \<Rightarrow> pyval" where
  "to_dict d =
     PDict [(''title'', PStr (doc_title d)), (''doc_number'', PStr (doc_number d)),
            (''sections'', PList (map section_to_dict (sections d))),
            (''created_by'', PStr (created_by d)),
            (''created_at'', PStr (isoformat (created_at d))),
            (''last_modified'', PStr (isoformat (last_modified d))),
            (''versions'', PList (map version_to_dict (versions d))),
            (''approved'', PBool (approved d)),
            (''approver'', (case approver d of None \<Rightarrow> PNone | Some u \<Rightarrow> PStr u)),
            (''metadata'', PDict (doc_metadata d)),
            (''template_name'', PStr (template_name d))]"

definition document_fields :: "string list" where
  "document_fields =
     [''title'', ''doc_number'', ''sections'', ''created_by'', ''created_at'', ''last_modified'',
      ''versions'', ''approved'', ''approver'', ''metadata'', ''template_name'']"

text \<open>\<open>approver: Optional[str] = None\<close>.\<close>

definition get_approver :: "(string \<times> pyval) list \<Rightarrow> string option option" where
  "get_approver kvs =
     (case map_of kvs ''approver'' of
        None \<Rightarrow> Some None
      | Some PNone \<Rightarrow> Some None
      | Some (PStr u) \<Rightarrow> Some (Some u)
      | Some _ \<Rightarrow> None)"

text \<open>
  \<open>Document.from_dict\<close>: the four conversions index \<open>data\<close> and need their keys; then
  \<open>cls(**data)\<close>, where only \<open>title\<close> has no default. (The source also writes the
  converted values back into the caller's dictionary.)
\<close>

definition from_dict :: "pyval \<Rightarrow> Document option" where
  "from_dict v =
     (case v of
        PDict kvs \<Rightarrow> do {
          ca \<leftarrow> get_datetime kvs ''created_at'';
          lm \<leftarrow> get_datetime kvs ''last_modified'';
          raw_secs \<leftarrow> get_list kvs ''sections'';
          ss \<leftarrow> those (map section_from_dict raw_secs);
          raw_vers \<leftarrow> get_list kvs ''versions'';
          vs \<leftarrow> those (map version_from_dict raw_vers);
          (if only_keys kvs document_fields
           then do {
             t \<leftarrow> get_str kvs ''title'' None;
             dn \<leftarrow> get_str kvs ''doc_number'' (Some []);
             cb \<leftarrow> get_str kvs ''created_by'' (Some []);
             ap \<leftarrow> get_bool kvs ''approved'' (Some False);
             apr \<leftarrow> get_approver kvs;
             md \<leftarrow> get_dict kvs ''metadata'' (Some []);
             tn \<leftarrow> get_str kvs ''template_name'' (Some []);
             Some \<lparr>doc_title = t, doc_number = dn, sections = ss, created_by = cb,
                   created_at = ca, last_modified = lm, versions = vs, approved = ap,
                   approver = apr, doc_metadata = md, template_name = tn\<rparr>
           }
           else None)
        }
      | _ \<Rightarrow> None)"

text \<open>The timestamps of a document are datetimes that Python can hold.\<close>


definition valid_timestamps :: "Document \<Rightarrow> bool" where
  "valid_timestamps d =
     (valid_datetime (created_at d) \<and> valid_datetime (last_modified d) \<and>
      list_all (\<lambda>ver. valid_datetime (timestamp ver)) (versions d))"

text \<open>A document with a section, a version and metadata, for the examples.\<close>

definition example_document :: Document where
  "example_document =
     (log_version
        (add_section (new_document ''Thermal Cycling Test'' clock0 clock0)
           ''Purpose'' ''P'' ''text'' None)
        ''ann'' ''doer'' ''first draft'' (clock0\<lparr>microsecond := 1500\<rparr>) clock0)
     \<lparr>doc_metadata := [(''company'', PStr ''ACME''), (''revision'', PInt 2)]\<rparr>"

text \<open>The addresses of all stored snapshots, and of their metadata dictionaries.\<close>

definition snapshot_addrs :: "document_ref \<Rightarrow> nat set" where
  "snapshot_addrs r = (\<Union>v \<in> set (r_versions r). set (r_snapshot v))"

definition snapshot_dicts :: "store \<Rightarrow> document_ref \<Rightarrow> nat set" where
  "snapshot_dicts h r = (\<lambda>a. obj_metadata (secs h a)) ` snapshot_addrs r"

text \<open>
  A state without sharing: no section object occurs twice in the live list, and the live
  document is separate from every stored snapshot. The methods of \<open>Document\<close> build
  only such states.
\<close>

definition unshared :: "store \<times> document_ref \<Rightarrow> bool" where
  "unshared st =
     (case st of (h, r) \<Rightarrow>
        distinct (r_sections r) \<and> separate (snapshot_addrs r) (snapshot_dicts h r) st)"

section \<open>Properties of the document operations\<close>

lemma find_update_first:
  "find (\<lambda>sec. title sec = t) ss = Some s \<Longrightarrow>
   \<exists>pre post. ss = pre @ s # post \<and> (\<forall>p \<in> set pre. title p \<noteq> t) \<and>
     update_first t f ss = pre @ f s # post"
proof (induction ss)
  case Nil
  then show ?case by simp
next
  case (Cons a ss)
  show ?case
  proof (cases "title a = t")
    case True
    with Cons.prems have "a = s" by simp
    with True have "a # ss = [] @ s # ss \<and> (\<forall>p \<in> set []. title p \<noteq> t) \<and>
        update_first t f (a # ss) = [] @ f s # ss" by simp
    then show ?thesis by blast
  next
    case False
    with Cons.prems have "find (\<lambda>sec. title sec = t) ss = Some s" by simp
    from Cons.IH [OF this] obtain pre post where
      "ss = pre @ s # post" "\<forall>p \<in> set pre. title p \<noteq> t"
      "update_first t f ss = pre @ f s # post" by blast
    with False have "a # ss = (a # pre) @ s # post \<and> (\<forall>p \<in> set (a # pre). title p \<noteq> t) \<and>
        update_first t f (a # ss) = (a # pre) @ f s # post" by simp
    then show ?thesis by blast
  qed
qed

text \<open>
  C3. \<open>update_section\<close> is a total function returning a boolean (it has no raising
  branch). If no section has the title, or the first section of that title is locked, it
  returns False and the document is unchanged. Otherwise it returns True, the first
  section of that title gets the new \<open>content\<close> and \<open>ai_generated\<close> with every other
  field and every other section kept, and \<open>last_modified\<close> is the clock reading.
\<close>

theorem update_section_spec:
  "(case get_section d t of
      None \<Rightarrow> update_section d t c ai now = (False, d)
    | Some s \<Rightarrow>
        if locked s then update_section d t c ai now = (False, d)
        else \<exists>pre post.
               sections d = pre @ s # post \<and> (\<forall>p \<in> set pre. title p \<noteq> t) \<and>
               update_section d t c ai now =
                 (True, d\<lparr>sections := pre @ s\<lparr>content := c, ai_generated := ai\<rparr> # post,
                          last_modified := now\<rparr>))"
proof (cases "get_section d t")
  case None
  then show ?thesis by (simp add: update_section_def)
next
  case (Some s)
  show ?thesis
  proof (cases "locked s")
    case True
    with Some show ?thesis by (simp add: update_section_def)
  next
    case False
    from Some have "find (\<lambda>sec. title sec = t) (sections d) = Some s"
      by (simp add: get_section_def)
    from find_update_first [OF this, of "\<lambda>s. s\<lparr>content := c, ai_generated := ai\<rparr>"]
    obtain pre post where
      "sections d = pre @ s # post" "\<forall>p \<in> set pre. title p \<noteq> t"
      "update_first t (\<lambda>s. s\<lparr>content := c, ai_generated := ai\<rparr>) (sections d)
         = pre @ s\<lparr>content := c, ai_generated := ai\<rparr> # post" by blast
    with Some False have
      "sections d = pre @ s # post \<and> (\<forall>p \<in> set pre. title p \<noteq> t) \<and>
       update_section d t c ai now =
         (True, d\<lparr>sections := pre @ s\<lparr>content := c, ai_generated := ai\<rparr> # post,
                  last_modified := now\<rparr>)"
      by (simp add: update_section_def)
    then have "\<exists>pre post.
       sections d = pre @ s # post \<and> (\<forall>p \<in> set pre. title p \<noteq> t) \<and>
       update_section d t c ai now =
         (True, d\<lparr>sections := pre @ s\<lparr>content := c, ai_generated := ai\<rparr> # post,
                  last_modified := now\<rparr>)"
      by blast
    with Some False show ?thesis by simp
  qed
qed

theorem update_section_spec_witness:
  "get_section (add_section (new_document ''D'' clock0 clock0) ''A'' ''x'' ''text'' None) ''A''
     = Some (new_section ''A'' ''x'' ''text'' 0) \<and>
   \<not> locked (new_section ''A'' ''x'' ''text'' 0) \<and>
   fst (update_section (add_section (new_document ''D'' clock0 clock0) ''A'' ''x'' ''text'' None)
          ''A'' ''y'' True clock0)"
  using update_section_spec
    [of "add_section (new_document ''D'' clock0 clock0) ''A'' ''x'' ''text'' None"
        "''A''" "''y''" True clock0]
  by (auto simp: get_section_def add_section_def new_document_def new_section_def)

subsection \<open>Approval\<close>

lemma log_version_fields:
  "sections (log_version d u r ch n1 n2) = sections d"
  "approved (log_version d u r ch n1 n2) = approved d"
  "approver (log_version d u r ch n1 n2) = approver d"
  by (simp_all add: log_version_def Let_def)

text \<open>
  C5. \<open>approve(user)\<close> sets \<open>approved\<close> and \<open>approver\<close>, locks every section that is
  present (changing nothing else of it), and appends exactly one version, whose
  \<open>changes\<close> is "Document approved" and whose \<open>role\<close> is "approver".
\<close>

theorem approve_spec:
  "approved (approve d u now1 now2) \<and>
   approver (approve d u now1 now2) = Some u \<and>
   sections (approve d u now1 now2) = map (\<lambda>sec. sec\<lparr>locked := True\<rparr>) (sections d) \<and>
   list_all locked (sections (approve d u now1 now2)) \<and>
   (\<exists>v. versions (approve d u now1 now2) = versions d @ [v] \<and>
        changes v = ''Document approved'' \<and> role v = ''approver'' \<and> user v = u)"
  by (simp add: approve_def log_version_def Let_def list_all_iff)

subsection \<open>The approval invariant\<close>

lemma locked_enumerate_order: "list_all locked (enumerate_order i ss) = list_all locked ss"
  by (induction ss arbitrary: i) simp_all

lemma locked_update_first:
  "(\<And>s. locked (f s) = locked s) \<Longrightarrow> list_all locked (update_first t f ss) = list_all locked ss"
  by (induction ss) simp_all

lemma update_section_approved [simp]: "approved (snd (update_section d t c ai now)) = approved d"
  by (simp add: update_section_def split: option.splits)

lemma locked_filter: "list_all locked ss \<Longrightarrow> list_all locked (filter P ss)"
  by (induction ss) simp_all

lemma lock_inv_remove_section: "lock_inv d \<Longrightarrow> lock_inv (remove_section d t)"
  by (simp add: lock_inv_def remove_section_def reorder_sections_def locked_enumerate_order
        locked_filter)

lemma lock_inv_update_section: "lock_inv d \<Longrightarrow> lock_inv (snd (update_section d t c ai now))"
  by (simp add: lock_inv_def update_section_def locked_update_first split: option.splits)

lemma lock_inv_log_version: "lock_inv d \<Longrightarrow> lock_inv (log_version d u r ch n1 n2)"
  by (simp add: lock_inv_def log_version_def Let_def)

lemma lock_inv_approve: "lock_inv (approve d u n1 n2)"
  by (simp add: lock_inv_def approve_def log_version_def Let_def list_all_iff)

lemma lock_inv_add_section: "\<not> approved d \<Longrightarrow> lock_inv (add_section d t c ct ord)"
  by (simp add: lock_inv_def add_section_def Let_def)

lemma update_section_all_locked:
  assumes "list_all locked (sections d)"
  shows "update_section d t c ai now = (False, d)"
proof (cases "get_section d t")
  case None
  then show ?thesis by (simp add: update_section_def)
next
  case (Some s)
  then have "s \<in> set (sections d)"
    by (auto simp: get_section_def find_Some_iff)
  with assms have "locked s" by (simp add: list_all_iff)
  with Some show ?thesis by (simp add: update_section_def)
qed

lemma lock_inv_run: "lock_inv d \<Longrightarrow> no_add_when_approved d ops \<Longrightarrow> lock_inv (run d ops)"
proof (induction ops arbitrary: d)
  case Nil
  then show ?case by simp
next
  case (Cons x xs)
  from Cons.prems have "lock_inv (apply_op d x)"
    by (cases x)
       (simp_all add: lock_inv_add_section lock_inv_remove_section lock_inv_update_section
          lock_inv_log_version lock_inv_approve)
  with Cons show ?case by simp
qed

text \<open>
  C1 (as amended). Take a document on which the approval invariant holds (a new document,
  for one) and any sequence of calls of \<open>add_section\<close>, \<open>remove_section\<close>,
  \<open>update_section\<close>, \<open>log_version\<close> and \<open>approve\<close> that never calls
  \<open>add_section\<close> while the document is approved. Afterwards the invariant holds:
  if the document is approved, every section is locked, and \<open>update_section\<close> returns
  False and leaves the document as it is, whatever its arguments.
\<close>

theorem approved_locks_sections:
  assumes "lock_inv d" and "no_add_when_approved d ops"
  shows "lock_inv (run d ops) \<and>
         (approved (run d ops) \<longrightarrow>
            update_section (run d ops) t c ai now = (False, run d ops))"
proof -
  from assms have inv: "lock_inv (run d ops)" by (rule lock_inv_run)
  then have "approved (run d ops) \<longrightarrow> list_all locked (sections (run d ops))"
    by (simp add: lock_inv_def)
  with inv show ?thesis by (simp add: update_section_all_locked)
qed

theorem approved_locks_sections_witness:
  "lock_inv (new_document ''D'' clock0 clock0) \<and>
   no_add_when_approved (new_document ''D'' clock0 clock0)
     [AddSection ''A'' ''a'' ''text'' None, Approve ''boss'' clock0 clock0,
      UpdateSection ''A'' ''b'' False clock0] \<and>
   approved (run (new_document ''D'' clock0 clock0)
     [AddSection ''A'' ''a'' ''text'' None, Approve ''boss'' clock0 clock0,
      UpdateSection ''A'' ''b'' False clock0]) \<and>
   fst (update_section (run (new_document ''D'' clock0 clock0)
     [AddSection ''A'' ''a'' ''text'' None, Approve ''boss'' clock0 clock0,
      UpdateSection ''A'' ''b'' False clock0]) ''A'' ''c'' False clock0) = False"
  using approved_locks_sections [of "new_document ''D'' clock0 clock0"
     "[AddSection ''A'' ''a'' ''text'' None, Approve ''boss'' clock0 clock0,
      UpdateSection ''A'' ''b'' False clock0]" "''A''" "''c''" False clock0]
  by (simp add: lock_inv_def new_document_def add_section_def new_section_def approve_def
        log_version_def update_section_def get_section_def)

text \<open>
  As stated, with \<open>add_section\<close> among the calls, the claim fails: \<open>add_section\<close>
  never looks at \<open>approved\<close> and appends an unlocked section, which
  \<open>update_section\<close> then rewrites on the approved document.
\<close>

theorem add_after_approve_counterexample:
  "approved (run (new_document ''D'' clock0 clock0)
     [Approve ''boss'' clock0 clock0, AddSection ''A'' ''a'' ''text'' None]) \<and>
   \<not> list_all locked (sections (run (new_document ''D'' clock0 clock0)
     [Approve ''boss'' clock0 clock0, AddSection ''A'' ''a'' ''text'' None])) \<and>
   fst (update_section (run (new_document ''D'' clock0 clock0)
     [Approve ''boss'' clock0 clock0, AddSection ''A'' ''a'' ''text'' None])
     ''A'' ''changed'' False clock0) \<and>
   map content (sections (snd (update_section (run (new_document ''D'' clock0 clock0)
     [Approve ''boss'' clock0 clock0, AddSection ''A'' ''a'' ''text'' None])
     ''A'' ''changed'' False clock0))) = [''changed'']"
  by (simp add: new_document_def add_section_def new_section_def approve_def
        log_version_def update_section_def get_section_def)

subsection \<open>The ordering invariant\<close>

lemma map_order_enumerate:
  "map order (enumerate_order i ss) = map int [i..<i + length ss]"
proof (induction ss arbitrary: i)
  case Nil
  then show ?case by simp
next
  case (Cons s ss)
  have "[i..<i + length (s # ss)] = i # [Suc i..<Suc i + length ss]"
    by (subst upt_rec) simp
  with Cons.IH [of "Suc i"] show ?case by simp
qed

lemma length_enumerate_order [simp]: "length (enumerate_order i ss) = length ss"
  by (induction ss arbitrary: i) simp_all

lemma order_inv_remove_section: "order_inv (remove_section d t)"
  by (simp add: order_inv_def remove_section_def reorder_sections_def map_order_enumerate)

lemma sort_key_sorted_id: "sorted (map f xs) \<Longrightarrow> sort_key f xs = xs"
  by (induction xs) (auto simp: insort_is_Cons)

lemma order_inv_add_section:
  assumes "order_inv d" and "ord = None \<or> ord = Some (int (length (sections d)))"
  shows "order_inv (add_section d t c ct ord)"
proof -
  let ?n = "length (sections d)"
  let ?new = "new_section t c ct (int ?n)"
  have k: "(case ord of None \<Rightarrow> int ?n | Some k \<Rightarrow> k) = int ?n"
    using assms(2) by auto
  have m: "map order (sections d @ [?new]) = map int [0..<Suc ?n]"
    using assms(1) by (simp add: order_inv_def new_section_def)
  have "sorted (map int [0..<Suc ?n])"
    by (simp add: sorted_map sorted_wrt_map del: upt_Suc)
  with m have "sort_key order (sections d @ [?new]) = sections d @ [?new]"
    by (simp add: sort_key_sorted_id del: upt_Suc)
  with k m show ?thesis
    by (simp add: order_inv_def add_section_def Let_def)
qed

lemma map_order_update_first:
  "(\<And>s. order (f s) = order s) \<Longrightarrow> map order (update_first t f ss) = map order ss"
  by (induction ss) simp_all

lemma length_update_first [simp]: "length (update_first t f ss) = length ss"
  by (induction ss) simp_all

lemma order_inv_update_section: "order_inv d \<Longrightarrow> order_inv (snd (update_section d t c ai now))"
  by (simp add: order_inv_def update_section_def map_order_update_first split: option.splits)

lemma order_inv_log_version: "order_inv d \<Longrightarrow> order_inv (log_version d u r ch n1 n2)"
  by (simp add: order_inv_def log_version_def Let_def)

lemma order_inv_approve: "order_inv d \<Longrightarrow> order_inv (approve d u n1 n2)"
  by (simp add: order_inv_def approve_def log_version_def Let_def comp_def)

text \<open>
  C2 (as amended). Take a document whose sections' \<open>order\<close> fields are their indices
  (a new document, for one) and any sequence of calls of the public methods in which every
  \<open>add_section\<close> leaves \<open>order\<close> out or passes the current number of sections.
  Afterwards each section's \<open>order\<close> is again its index: the values are
  \<open>0, 1, ..., n - 1\<close>, with no gap and no duplicate.
\<close>

theorem order_is_index:
  "order_inv d \<Longrightarrow> adds_at_end d ops \<Longrightarrow> order_inv (run d ops)"
proof (induction ops arbitrary: d)
  case Nil
  then show ?case by simp
next
  case (Cons x xs)
  from Cons.prems have "order_inv (apply_op d x)"
    by (cases x)
       (simp_all add: order_inv_add_section order_inv_remove_section order_inv_update_section
          order_inv_log_version order_inv_approve)
  with Cons show ?case by simp
qed

theorem order_is_index_witness:
  "order_inv (new_document ''D'' clock0 clock0) \<and>
   adds_at_end (new_document ''D'' clock0 clock0)
     [AddSection ''A'' ''a'' ''text'' (Some 0), AddSection ''B'' ''b'' ''text'' None,
      RemoveSection ''A'', AddSection ''C'' ''c'' ''table'' (Some 1)] \<and>
   map order (sections (run (new_document ''D'' clock0 clock0)
     [AddSection ''A'' ''a'' ''text'' (Some 0), AddSection ''B'' ''b'' ''text'' None,
      RemoveSection ''A'', AddSection ''C'' ''c'' ''table'' (Some 1)])) = [0, 1]"
  using order_is_index [of "new_document ''D'' clock0 clock0"
     "[AddSection ''A'' ''a'' ''text'' (Some 0), AddSection ''B'' ''b'' ''text'' None,
      RemoveSection ''A'', AddSection ''C'' ''c'' ''table'' (Some 1)]"]
  by (simp add: order_inv_def new_document_def add_section_def remove_section_def
        reorder_sections_def new_section_def)

text \<open>
  As stated, for any explicit \<open>order\<close>, the claim fails: \<open>add_section\<close> stores the
  argument and only sorts, it does not renumber.
\<close>

theorem explicit_order_counterexample:
  "map order (sections (run (new_document ''D'' clock0 clock0)
      [AddSection ''A'' ''a'' ''text'' (Some 5)])) = [5] \<and>
   \<not> order_inv (run (new_document ''D'' clock0 clock0) [AddSection ''A'' ''a'' ''text'' (Some 5)])"
  by (simp add: order_inv_def new_document_def add_section_def new_section_def)

section \<open>Properties of the translator\<close>

text \<open>
  C10. \<open>translate_text\<close> returns its input text unchanged, with no call to the
  translation service, whenever the text is empty or whitespace-only, or the resolved
  target-language code is "en".
\<close>

theorem translate_text_skips:
  "text = [] \<or> py_strip text = [] \<or> target_code target_language = ''en'' \<Longrightarrow>
   translate_text svc text target_language source_language = (text, [])"
  by (auto simp: translate_text_def)

theorem translate_text_skips_witness:
  "target_code ''English'' = ''en'' \<and>
   translate_text reversing_service ''Wear gloves'' ''English'' ''en'' = (''Wear gloves'', []) \<and>
   translate_text reversing_service ''Wear gloves'' ''de'' ''en''
     = (''sevolg raeW'', [Construct ''en'' ''de'', Translate ''Wear gloves''])"
  using translate_text_skips [of "''Wear gloves''" "''English''" reversing_service "''en''"]
  by (simp add: target_code_def SUPPORTED_LANGUAGES_def translate_text_def reversing_service_def
        py_strip_def strip_chars_def is_space_def)

section \<open>Properties of the exporter\<close>

subsection \<open>Skipping empty sections\<close>

lemma to_markdown_skips_blank:
  "blank_content s \<Longrightarrow>
   to_markdown repr now (doc\<lparr>sections := xs @ s # ys\<rparr>) =
   to_markdown repr now (doc\<lparr>sections := xs @ ys\<rparr>)"
  by (simp add: to_markdown_def markdown_section_def)

text \<open>
  C7 (the code departs from the claim). The section of \<open>blank_table_doc\<close> has
  whitespace-only content, and \<open>to_markdown\<close> skips it. \<open>to_excel\<close> tests
  \<open>sec.content\<close> without \<open>strip()\<close>: with xlsxwriter present it adds a worksheet for
  the section and then raises IndexError on \<open>lines[0]\<close>, so the export fails; without
  xlsxwriter the CSV fallback writes the section's heading and body.
\<close>

theorem excel_blank_table_section:
  "sections blank_table_doc = [new_section ''T'' ''   '' ''table'' 0] \<and>
   blank_content (new_section ''T'' ''   '' ''table'' 0) \<and>
   markdown_section (new_section ''T'' ''   '' ''table'' 0) = [] \<and>
   to_excel (Some example_xlsxwriter) blank_table_doc
     = Inl (IndexError ''list index out of range'') \<and>
   export_document example_renderers (Some example_xlsxwriter) example_repr clock0
       blank_table_doc ''excel''
     = Inl (IndexError ''list index out of range'') \<and>
   to_excel None blank_table_doc
     = Inr ''# D\<newline># Document Number: \<newline>\<newline>\<newline># T\<newline>   ''"
  by code_simp

subsection \<open>The clock in the markdown export\<close>

lemma strftime_same_second: "same_second a b \<Longrightarrow> strftime_datetime a = strftime_datetime b"
  by (simp add: same_second_def strftime_datetime_def strftime_date_def)

text \<open>
  C8 (as amended). The markdown export is a function of the document and of the clock
  reading to the second: two calls on the same document whose readings agree to the
  second give the same bytes.
\<close>

theorem markdown_export_same_second:
  "same_second a b \<Longrightarrow>
   export_document rs xl repr a doc ''markdown'' = export_document rs xl repr b doc ''markdown''"
  by (simp add: export_document_def to_markdown_def strftime_same_second Let_def)

theorem markdown_export_same_second_witness:
  "same_second clock0 (clock0\<lparr>microsecond := 250\<rparr>) \<and>
   export_document example_renderers None example_repr clock0 blank_table_doc ''markdown''
   = export_document example_renderers None example_repr (clock0\<lparr>microsecond := 250\<rparr>)
       blank_table_doc ''markdown''"
  using markdown_export_same_second
    [of clock0 "clock0\<lparr>microsecond := 250\<rparr>" example_renderers None example_repr
       blank_table_doc]
  by (simp add: same_second_def clock0_def)

text \<open>
  As stated, with no dependence on the current time, the claim fails: the footer holds
  \<open>datetime.now()\<close>, so two calls one second apart differ.
\<close>

theorem markdown_clock_counterexample:
  "export_document example_renderers None example_repr clock0 blank_table_doc ''markdown''
   \<noteq> export_document example_renderers None example_repr (clock0\<lparr>second := 1\<rparr>)
       blank_table_doc ''markdown''"
  by code_simp

subsection \<open>Format tags\<close>

text \<open>
  C9 (as amended). \<open>export_document\<close> reads the tag case-insensitively. A tag that is,
  in lower case, one of docx, pdf, html, excel, markdown is dispatched to the renderer of
  that format, whose result is the result. Every other tag, xlsx included, fails with
  the unsupported-format error.
\<close>

theorem export_document_dispatch:
  "(py_lower f = py_lower g \<longrightarrow>
      export_document rs xl repr now doc f = export_document rs xl repr now doc g) \<and>
   (py_lower f \<notin> set supported_formats \<longrightarrow>
      export_document rs xl repr now doc f
        = Inl (ValueError (''Unsupported format: '' @ py_lower f))) \<and>
   (py_lower f = ''docx'' \<longrightarrow> export_document rs xl repr now doc f = to_docx rs doc) \<and>
   (py_lower f = ''pdf'' \<longrightarrow> export_document rs xl repr now doc f = to_pdf rs doc) \<and>
   (py_lower f = ''html'' \<longrightarrow>
      export_document rs xl repr now doc f = map_sum id utf8_encode (to_html rs doc)) \<and>
   (py_lower f = ''excel'' \<longrightarrow> export_document rs xl repr now doc f = to_excel xl doc) \<and>
   (py_lower f = ''markdown'' \<longrightarrow>
      export_document rs xl repr now doc f = Inr (utf8_encode (to_markdown repr now doc)))"
  by (auto simp: export_document_def supported_formats_def Let_def split: sum.splits)

theorem export_document_dispatch_witness:
  "py_lower ''DocX'' = py_lower ''docx'' \<and> py_lower ''DocX'' = ''docx'' \<and>
   py_lower ''Word'' \<notin> set supported_formats \<and>
   export_document example_renderers None example_repr clock0 blank_table_doc ''DocX''
     = export_document example_renderers None example_repr clock0 blank_table_doc ''docx'' \<and>
   export_document example_renderers None example_repr clock0 blank_table_doc ''DocX''
     = to_docx example_renderers blank_table_doc \<and>
   export_document example_renderers None example_repr clock0 blank_table_doc ''Word''
     = Inl (ValueError ''Unsupported format: word'')"
proof -
  have a: "py_lower ''DocX'' = ''docx''" by code_simp
  have b: "py_lower ''docx'' = ''docx''" by code_simp
  have c: "py_lower ''Word'' = ''word''" by code_simp
  have d: "''word'' \<notin> set supported_formats" by (simp add: supported_formats_def)
  note t1 = export_document_dispatch
      [of "''DocX''" "''docx''" example_renderers None example_repr clock0 blank_table_doc]
  note t2 = export_document_dispatch
      [of "''Word''" "''Word''" example_renderers None example_repr clock0 blank_table_doc]
  from t1 a b have e1:
    "export_document example_renderers None example_repr clock0 blank_table_doc ''DocX''
     = export_document example_renderers None example_repr clock0 blank_table_doc ''docx''"
    by (simp only: simp_thms)
  from t1 a have e2:
    "export_document example_renderers None example_repr clock0 blank_table_doc ''DocX''
     = to_docx example_renderers blank_table_doc"
    by (simp only: simp_thms)
  from t2 c d have e3:
    "export_document example_renderers None example_repr clock0 blank_table_doc ''Word''
     = Inl (ValueError ''Unsupported format: word'')"
    by simp
  from a b c d e1 e2 e3 show ?thesis by (simp only: simp_thms not_False_eq_True)
qed

text \<open>As stated, with xlsx accepted as an alias of excel, the claim fails.\<close>

theorem xlsx_counterexample:
  "export_document example_renderers (Some example_xlsxwriter) example_repr clock0
     blank_table_doc ''xlsx'' = Inl (ValueError ''Unsupported format: xlsx'') \<and>
   export_document example_renderers (Some example_xlsxwriter) example_repr clock0
     blank_table_doc ''XLSX'' = Inl (ValueError ''Unsupported format: xlsx'')"
  by code_simp

section \<open>Properties of the store model\<close>

lemma write_section_simps [simp]:
  "secs (write_section h a f) b = (if b = a then f (secs h a) else secs h b)"
  "dicts (write_section h a f) = dicts h"
  "next_addr (write_section h a f) = next_addr h"
  by (simp_all add: write_section_def)

lemma set_orders_frame:
  "next_addr (set_orders h i as) = next_addr h"
  "dicts (set_orders h i as) = dicts h"
  "obj_metadata (secs (set_orders h i as) b) = obj_metadata (secs h b)"
  "b \<notin> set as \<Longrightarrow> secs (set_orders h i as) b = secs h b"
  by (induction as arbitrary: h i) simp_all

lemma lock_all_frame:
  "next_addr (lock_all h as) = next_addr h"
  "dicts (lock_all h as) = dicts h"
  "obj_metadata (secs (lock_all h as) b) = obj_metadata (secs h b)"
  "b \<notin> set as \<Longrightarrow> secs (lock_all h as) b = secs h b"
  by (induction as arbitrary: h) simp_all

lemma unlock_all_frame:
  "next_addr (unlock_all h as) = next_addr h"
  "dicts (unlock_all h as) = dicts h"
  "obj_metadata (secs (unlock_all h as) b) = obj_metadata (secs h b)"
  "b \<notin> set as \<Longrightarrow> secs (unlock_all h as) b = secs h b"
  by (induction as arbitrary: h) simp_all

lemma copy_section_eq:
  "copy_section h a =
     (Suc (next_addr h),
      h\<lparr>dicts := (dicts h)(next_addr h := dicts h (obj_metadata (secs h a))),
        secs := (secs h)(Suc (next_addr h) := (secs h a)\<lparr>obj_metadata := next_addr h\<rparr>),
        next_addr := Suc (Suc (next_addr h))\<rparr>)"
  by (simp add: copy_section_def alloc_dict_def alloc_section_def)

text \<open>What taking a snapshot does to the store: it only allocates.\<close>

lemma snapshot_ref_fresh:
  "snapshot_ref h as = (snap, h') \<Longrightarrow>
   next_addr h \<le> next_addr h' \<and>
   (\<forall>b < next_addr h. secs h' b = secs h b \<and> dicts h' b = dicts h b) \<and>
   (\<forall>a \<in> set snap. next_addr h \<le> a \<and> a < next_addr h' \<and>
      next_addr h \<le> obj_metadata (secs h' a) \<and> obj_metadata (secs h' a) < next_addr h')"
proof (induction as arbitrary: h snap h')
  case Nil
  then show ?case by simp
next
  case (Cons a as)
  obtain a1 h1 where c: "copy_section h a = (a1, h1)" by (cases "copy_section h a")
  obtain rest h2 where s: "snapshot_ref h1 as = (rest, h2)" by (cases "snapshot_ref h1 as")
  from Cons.prems c s have eq: "snap = a1 # rest" "h' = h2" by simp_all
  from c have a1: "a1 = Suc (next_addr h)" and n1: "next_addr h1 = Suc (Suc (next_addr h))"
    and s1: "\<forall>b < next_addr h. secs h1 b = secs h b \<and> dicts h1 b = dicts h b"
    and m1: "obj_metadata (secs h1 a1) = next_addr h"
    by (auto simp: copy_section_eq)
  note ih = Cons.IH [OF s]
  from ih n1 have le: "next_addr h \<le> next_addr h2" by simp
  from ih n1 s1 have old: "\<forall>b < next_addr h. secs h2 b = secs h b \<and> dicts h2 b = dicts h b"
    by simp
  from ih a1 n1 m1 have new1: "secs h2 a1 = secs h1 a1" by simp
  with a1 n1 m1 ih have h1: "next_addr h \<le> a1 \<and> a1 < next_addr h2 \<and>
      next_addr h \<le> obj_metadata (secs h2 a1) \<and> obj_metadata (secs h2 a1) < next_addr h2"
    by simp
  from ih n1 have rest: "\<forall>a \<in> set rest. next_addr h \<le> a \<and> a < next_addr h2 \<and>
      next_addr h \<le> obj_metadata (secs h2 a) \<and> obj_metadata (secs h2 a) < next_addr h2"
    by auto
  from le old h1 rest eq show ?case by simp
qed

text \<open>The snapshot holds the values of the sections it copied.\<close>

lemma snapshot_ref_values:
  "snapshot_ref h as = (snap, h') \<Longrightarrow>
   list_all (\<lambda>a. a < next_addr h \<and> obj_metadata (secs h a) < next_addr h) as \<Longrightarrow>
   map (deref h') snap = map (deref h) as"
proof (induction as arbitrary: h snap h')
  case Nil
  then show ?case by simp
next
  case (Cons a as)
  obtain a1 h1 where c: "copy_section h a = (a1, h1)" by (cases "copy_section h a")
  obtain rest h2 where s: "snapshot_ref h1 as = (rest, h2)" by (cases "snapshot_ref h1 as")
  from Cons.prems(1) c s have eq: "snap = a1 # rest" "h' = h2" by simp_all
  from c have a1: "a1 = Suc (next_addr h)" and n1: "next_addr h1 = Suc (Suc (next_addr h))"
    and s1: "\<forall>b < next_addr h. secs h1 b = secs h b \<and> dicts h1 b = dicts h b"
    and d1: "deref h1 a1 = deref h a"
    by (auto simp: copy_section_eq deref_def)
  from Cons.prems(2) s1 n1
  have ok1: "list_all (\<lambda>a. a < next_addr h1 \<and> obj_metadata (secs h1 a) < next_addr h1) as"
    by (auto simp: list_all_iff)
  from Cons.prems(2) s1 have same: "map (deref h1) as = map (deref h) as"
    by (auto simp: list_all_iff deref_def)
  from snapshot_ref_fresh [OF s] a1 n1 c
  have "secs h2 a1 = secs h1 a1 \<and> dicts h2 (obj_metadata (secs h1 a1)) = dicts h1 (obj_metadata (secs h1 a1))"
    by (auto simp: copy_section_eq)
  then have "deref h2 a1 = deref h1 a1" by (simp add: deref_def)
  with Cons.IH [OF s ok1] same d1 eq show ?case by simp
qed


subsection \<open>Every step keeps a stored snapshot apart from the live document\<close>

lemma separate_add_section:
  assumes "separate S M st"
  shows "separate S M (add_section_ref st t c ct ord) \<and>
         unchanged_on S M (fst st) (fst (add_section_ref st t c ct ord))"
proof -
  obtain h r where st: "st = (h, r)" by (cases st)
  from assms st show ?thesis
    by (auto simp: separate_def unchanged_on_def add_section_ref_def alloc_dict_def
          alloc_section_def Let_def)
qed

lemma separate_remove_section:
  assumes "separate S M st"
  shows "separate S M (remove_section_ref st t) \<and>
         unchanged_on S M (fst st) (fst (remove_section_ref st t))"
proof -
  obtain h r where st: "st = (h, r)" by (cases st)
  let ?keep = "filter (\<lambda>a. obj_title (secs h a) \<noteq> t) (r_sections r)"
  from assms st have "\<forall>a \<in> S. a \<notin> set ?keep" by (auto simp: separate_def)
  then have "\<forall>a \<in> S. secs (set_orders h 0 ?keep) a = secs h a"
    by (simp add: set_orders_frame)
  with assms st show ?thesis
    by (auto simp: separate_def unchanged_on_def remove_section_ref_def Let_def set_orders_frame)
qed

lemma separate_update_section:
  assumes "separate S M st"
  shows "separate S M (snd (update_section_ref st t c ai now)) \<and>
         unchanged_on S M (fst st) (fst (snd (update_section_ref st t c ai now)))"
proof -
  obtain h r where st: "st = (h, r)" by (cases st)
  show ?thesis
  proof (cases "get_section_ref st t")
    case None
    with assms st show ?thesis by (simp add: update_section_ref_def unchanged_on_def)
  next
    case (Some a)
    with st have "a \<in> set (r_sections r)"
      by (auto simp: get_section_ref_def find_Some_iff)
    with assms st Some show ?thesis
      by (auto simp: separate_def unchanged_on_def update_section_ref_def)
  qed
qed

lemma separate_log_version:
  assumes "separate S M st"
  shows "separate S M (log_version_ref st u ro ch n1 n2) \<and>
         unchanged_on S M (fst st) (fst (log_version_ref st u ro ch n1 n2))"
proof -
  obtain h r where st: "st = (h, r)" by (cases st)
  obtain snap h1 where s: "snapshot_ref h (r_sections r) = (snap, h1)"
    by (cases "snapshot_ref h (r_sections r)")
  from snapshot_ref_fresh [OF s]
  have le: "next_addr h \<le> next_addr h1"
    and old: "\<forall>b < next_addr h. secs h1 b = secs h b \<and> dicts h1 b = dicts h b"
    by simp_all
  from st s have res: "log_version_ref st u ro ch n1 n2 =
      (h1, r\<lparr>r_versions := r_versions r @
           [\<lparr>r_version_id = int (length (r_versions r)) + 1, r_timestamp = n1, r_user = u,
             r_role = ro, r_changes = ch, r_snapshot = snap\<rparr>],
         r_last_modified := n2\<rparr>)"
    by (simp add: log_version_ref_def Let_def)
  from assms st le old have "separate S M (h1, r)"
    by (fastforce simp: separate_def)
  moreover from assms st old have "unchanged_on S M h h1"
    by (auto simp: separate_def unchanged_on_def)
  ultimately show ?thesis using st res by (simp add: separate_def)
qed

lemma separate_lock_all:
  assumes "separate S M (h, r)" and that: "r_sections r' = r_sections r"
  shows "separate S M (lock_all h (r_sections r), r') \<and> unchanged_on S M h (lock_all h (r_sections r))"
proof -
  from assms have "\<forall>a \<in> S. a \<notin> set (r_sections r)" by (auto simp: separate_def)
  then have "\<forall>a \<in> S. secs (lock_all h (r_sections r)) a = secs h a"
    by (simp add: lock_all_frame)
  with assms that show ?thesis
    by (auto simp: separate_def unchanged_on_def lock_all_frame)
qed

lemma unchanged_on_trans:
  "unchanged_on S M h1 h2 \<Longrightarrow> unchanged_on S M h2 h3 \<Longrightarrow> unchanged_on S M h1 h3"
  by (simp add: unchanged_on_def)

lemma unchanged_on_refl: "unchanged_on S M h h"
  by (simp add: unchanged_on_def)

lemma separate_approve:
  assumes "separate S M st"
  shows "separate S M (approve_ref st u n1 n2) \<and>
         unchanged_on S M (fst st) (fst (approve_ref st u n1 n2))"
proof -
  obtain h r where st: "st = (h, r)" by (cases st)
  let ?mid = "(lock_all h (r_sections r), r\<lparr>r_approved := True, r_approver := Some u\<rparr>)"
  from assms st separate_lock_all [of S M h r "r\<lparr>r_approved := True, r_approver := Some u\<rparr>"]
  have mid: "separate S M ?mid" and u1: "unchanged_on S M h (fst ?mid)" by simp_all
  from separate_log_version [OF mid, of u "''approver''" "''Document approved''" n1 n2]
  have "separate S M (log_version_ref ?mid u ''approver'' ''Document approved'' n1 n2)"
    and "unchanged_on S M (fst ?mid)
           (fst (log_version_ref ?mid u ''approver'' ''Document approved'' n1 n2))"
    by simp_all
  with u1 st show ?thesis
    by (auto simp: approve_ref_def intro: unchanged_on_trans)
qed

lemma separate_write_at:
  assumes "separate S M st" and "\<And>obj. obj_metadata (f obj) = obj_metadata obj"
  shows "separate S M (write_at st i f) \<and> unchanged_on S M (fst st) (fst (write_at st i f))"
proof -
  obtain h r where st: "st = (h, r)" by (cases st)
  show ?thesis
  proof (cases "i < length (r_sections r)")
    case True
    then have "r_sections r ! i \<in> set (r_sections r)" by simp
    with assms st True show ?thesis
      by (auto simp: separate_def unchanged_on_def write_at_def)
  next
    case False
    with assms st show ?thesis by (simp add: write_at_def unchanged_on_def)
  qed
qed

lemma separate_mutate:
  assumes "separate S M st"
  shows "separate S M (mutate st m) \<and> unchanged_on S M (fst st) (fst (mutate st m))"
proof -
  obtain h r where st: "st = (h, r)" by (cases st)
  show ?thesis
  proof (cases m)
    case (SetMetadataItem i k v)
    show ?thesis
    proof (cases "i < length (r_sections r)")
      case True
      then have "r_sections r ! i \<in> set (r_sections r)" by simp
      with assms st True SetMetadataItem show ?thesis
        by (auto simp: separate_def unchanged_on_def)
    next
      case False
      with assms st SetMetadataItem show ?thesis by (simp add: unchanged_on_def)
    qed
  next
    case (SwapSections i j)
    show ?thesis
    proof (cases "i < length (r_sections r) \<and> j < length (r_sections r)")
      case True
      then have "set ((r_sections r)[i := r_sections r ! j, j := r_sections r ! i])
                   \<subseteq> set (r_sections r)"
        by (auto dest!: set_update_subset_insert [THEN subsetD])
      with assms st True SwapSections show ?thesis
        by (auto simp: separate_def unchanged_on_def)
    next
      case False
      with assms st SwapSections show ?thesis by (auto simp: unchanged_on_def)
    qed
  next
    case Unlock
    from assms st have "\<forall>a \<in> S. a \<notin> set (r_sections r)" by (auto simp: separate_def)
    then have "\<forall>a \<in> S. secs (unlock_all h (r_sections r)) a = secs h a"
      by (simp add: unlock_all_frame)
    with assms st Unlock show ?thesis
      by (auto simp: separate_def unchanged_on_def unlock_all_frame)
  qed (simp_all add: separate_write_at [OF assms])
qed

lemma separate_step:
  assumes "separate S M st"
  shows "separate S M (apply_step st x) \<and> unchanged_on S M (fst st) (fst (apply_step st x))"
proof (cases x)
  case (Method y)
  with assms show ?thesis
    by (cases y)
       (simp_all add: separate_add_section separate_remove_section separate_update_section
          separate_log_version separate_approve)
next
  case (Direct m)
  with assms show ?thesis by (simp add: separate_mutate)
qed

lemma separate_run:
  "separate S M st \<Longrightarrow>
   separate S M (run_ref st steps) \<and> unchanged_on S M (fst st) (fst (run_ref st steps))"
proof (induction steps arbitrary: st)
  case Nil
  then show ?case by (simp add: unchanged_on_refl)
next
  case (Cons x xs)
  from separate_step [OF Cons.prems, of x]
  have a: "separate S M (apply_step st x)"
    and b: "unchanged_on S M (fst st) (fst (apply_step st x))" by simp_all
  from Cons.IH [OF a] b show ?case
    by (auto intro: unchanged_on_trans)
qed


subsection \<open>Version numbers\<close>

lemma versions_log_version:
  "r_versions (snd (log_version_ref st u ro ch n1 n2)) =
     r_versions (snd st) @
       [\<lparr>r_version_id = int (length (r_versions (snd st))) + 1, r_timestamp = n1, r_user = u,
         r_role = ro, r_changes = ch,
         r_snapshot = fst (snapshot_ref (fst st) (r_sections (snd st)))\<rparr>]"
  by (cases st) (simp add: log_version_ref_def Let_def split: prod.splits)

lemma versions_write_at [simp]: "r_versions (snd (write_at st i f)) = r_versions (snd st)"
  by (cases st) (simp add: write_at_def)

lemma versions_mutate [simp]: "r_versions (snd (mutate st m)) = r_versions (snd st)"
  by (cases st; cases m) simp_all

lemma versions_step:
  "\<exists>vs. r_versions (snd (apply_step st x)) = r_versions (snd st) @ vs \<and>
        map r_version_id vs =
          map int [Suc (length (r_versions (snd st)))..<
                   Suc (length (r_versions (snd st))) + logs x]"
proof (cases x)
  case (Direct m)
  then show ?thesis by simp
next
  case (Method y)
  show ?thesis
  proof (cases y)
    case (AddSection t c ct ord)
    with Method show ?thesis
      by (cases st) (simp add: add_section_ref_def alloc_dict_def alloc_section_def Let_def)
  next
    case (RemoveSection t)
    with Method show ?thesis by (cases st) (simp add: remove_section_ref_def Let_def)
  next
    case (UpdateSection t c ai now)
    with Method show ?thesis
      by (cases st) (simp add: update_section_ref_def split: option.splits)
  next
    case (LogVersion u ro ch n1 n2)
    with Method show ?thesis by (simp add: versions_log_version)
  next
    case (Approve u n1 n2)
    with Method show ?thesis
      by (cases st) (simp add: approve_ref_def versions_log_version)
  qed
qed

lemma versions_run:
  "\<exists>vs. r_versions (snd (run_ref st steps)) = r_versions (snd st) @ vs \<and>
        map r_version_id vs =
          map int [Suc (length (r_versions (snd st)))..<
                   Suc (length (r_versions (snd st))) + count_logs steps]"
proof (induction steps arbitrary: st)
  case Nil
  then show ?case by (simp add: count_logs_def)
next
  case (Cons x xs)
  let ?n = "length (r_versions (snd st))"
  from versions_step [of st x] obtain vs where
    v1: "r_versions (snd (apply_step st x)) = r_versions (snd st) @ vs"
    and i1: "map r_version_id vs = map int [Suc ?n..<Suc ?n + logs x]" by blast
  from i1 have l1: "length vs = logs x" by (metis length_map length_upt add_diff_cancel_left')
  from Cons.IH [of "apply_step st x"] obtain ws where
    v2: "r_versions (snd (run_ref (apply_step st x) xs)) = r_versions (snd (apply_step st x)) @ ws"
    and i2: "map r_version_id ws =
       map int [Suc (length (r_versions (snd (apply_step st x))))..<
                Suc (length (r_versions (snd (apply_step st x)))) + count_logs xs]" by blast
  from v1 l1 have len: "length (r_versions (snd (apply_step st x))) = ?n + logs x" by simp
  have cl: "count_logs (x # xs) = logs x + count_logs xs" by (simp add: count_logs_def)
  have "[Suc ?n..<(Suc ?n + logs x) + count_logs xs] =
      [Suc ?n..<Suc ?n + logs x] @ [Suc ?n + logs x..<(Suc ?n + logs x) + count_logs xs]"
    by (rule upt_add_eq_append) simp
  then have split: "[Suc ?n..<Suc ?n + count_logs (x # xs)] =
      [Suc ?n..<Suc ?n + logs x] @ [Suc ?n + logs x..<Suc ?n + logs x + count_logs xs]"
    by (simp only: cl add.assoc)
  from v1 v2 have "r_versions (snd (run_ref st (x # xs))) = r_versions (snd st) @ (vs @ ws)"
    by simp
  moreover from i1 i2 len split
  have "map r_version_id (vs @ ws) = map int [Suc ?n..<Suc ?n + count_logs (x # xs)]"
    by simp
  ultimately show ?case by blast
qed

subsection \<open>The stored snapshot is independent of the live document\<close>

lemma allocated_separate: "allocated st = separate {} {} st"
  by (cases st) (simp add: allocated_def separate_def list_all_iff)

lemma allocated_run: "allocated st \<Longrightarrow> allocated (run_ref st steps)"
  by (simp add: allocated_separate separate_run)

lemma allocated_new_document: "allocated (new_document_ref t now1 now2)"
  by (simp add: allocated_def new_document_ref_def)

lemma deref_unchanged:
  assumes "unchanged_on S M h h'" and "set as \<subseteq> S"
    and "(\<lambda>a. obj_metadata (secs h a)) ` set as \<subseteq> M"
  shows "map (deref h') as = map (deref h) as"
proof (rule map_cong [OF refl])
  fix a assume a: "a \<in> set as"
  with assms(2) have "a \<in> S" by blast
  with assms(1) have o: "secs h' a = secs h a" by (simp add: unchanged_on_def)
  from a assms(3) have "obj_metadata (secs h a) \<in> M" by blast
  with assms(1) have "dicts h' (obj_metadata (secs h a)) = dicts h (obj_metadata (secs h a))"
    by (simp add: unchanged_on_def)
  with o show "deref h' a = deref h a" by (simp add: deref_def)
qed

text \<open>
  C4. On a document whose objects are all allocated (any document, that is),
  \<open>log_version\<close> appends one version whose \<open>version_id\<close> is the number of versions
  plus one and whose snapshot holds the values of the sections at that moment. After any
  further steps (calls of the public methods, and writes to the live sections' content,
  lock bits, metadata and ordering) the version is still at its place with the same
  snapshot values, and the versions logged since carry the next numbers in sequence, one
  per call: none is reused. From a document with no version, the Nth call gives
  \<open>version_id = N\<close>.
\<close>

theorem log_version_snapshot:
  assumes "allocated st"
  shows "length (versions (document_of (run_ref (log_version_ref st u ro ch now1 now2) steps)))
           = length (versions (document_of st)) + 1 + count_logs steps \<and>
         map version_id (drop (length (versions (document_of st)))
             (versions (document_of (run_ref (log_version_ref st u ro ch now1 now2) steps))))
           = map int [length (versions (document_of st)) + 1..<
                      length (versions (document_of st)) + 2 + count_logs steps] \<and>
         versions (document_of (log_version_ref st u ro ch now1 now2))
             ! length (versions (document_of st))
           = \<lparr>version_id = int (length (versions (document_of st))) + 1, timestamp = now1,
               user = u, role = ro, changes = ch,
               content_snapshot = sections (document_of st)\<rparr> \<and>
         versions (document_of (run_ref (log_version_ref st u ro ch now1 now2) steps))
             ! length (versions (document_of st))
           = \<lparr>version_id = int (length (versions (document_of st))) + 1, timestamp = now1,
               user = u, role = ro, changes = ch,
               content_snapshot = sections (document_of st)\<rparr>"
proof -
  obtain h r where st: "st = (h, r)" by (cases st)
  obtain snap h1 where s: "snapshot_ref h (r_sections r) = (snap, h1)"
    by (cases "snapshot_ref h (r_sections r)")
  let ?n = "length (r_versions r)"
  let ?v = "\<lparr>r_version_id = int ?n + 1, r_timestamp = now1, r_user = u, r_role = ro,
            r_changes = ch, r_snapshot = snap\<rparr>"
  let ?st1 = "log_version_ref st u ro ch now1 now2"
  let ?st2 = "run_ref ?st1 steps"
  let ?S = "set snap"
  let ?M = "(\<lambda>a. obj_metadata (secs h1 a)) ` set snap"
  from st s have st1: "?st1 = (h1, r\<lparr>r_versions := r_versions r @ [?v], r_last_modified := now2\<rparr>)"
    by (simp add: log_version_ref_def Let_def)
  from assms st have alloc:
    "list_all (\<lambda>a. a < next_addr h \<and> obj_metadata (secs h a) < next_addr h) (r_sections r)"
    by (simp add: allocated_def)
  from snapshot_ref_values [OF s alloc]
  have vals: "map (deref h1) snap = map (deref h) (r_sections r)" .
  note fresh = snapshot_ref_fresh [OF s]
  from fresh alloc have sep: "separate ?S ?M ?st1"
    unfolding st1 separate_def by (fastforce simp: list_all_iff)
  from separate_run [OF sep, of steps] st1
  have unch: "unchanged_on ?S ?M h1 (fst ?st2)" by simp
  have keep: "map (deref (fst ?st2)) snap = map (deref h1) snap"
    by (rule deref_unchanged [OF unch]) simp_all
  from versions_run [of ?st1 steps] st1 obtain vs where
    vs: "r_versions (snd ?st2) = r_versions r @ ?v # vs"
    and ids: "map r_version_id vs = map int [?n + 2..<?n + 2 + count_logs steps]"
    by auto
  from ids have lvs: "length vs = count_logs steps"
    by (metis length_map length_upt add_diff_cancel_left')
  obtain h2 r2 where st2: "?st2 = (h2, r2)" by (cases ?st2)
  have n: "length (versions (document_of st)) = ?n"
    using st by (simp add: document_of_def)
  have secs0: "sections (document_of st) = map (deref h) (r_sections r)"
    using st by (simp add: document_of_def)
  have vers2: "versions (document_of ?st2) = map (version_of h2) (r_versions r @ ?v # vs)"
    using st2 vs by (simp add: document_of_def)
  have c1: "length (versions (document_of ?st2)) = ?n + 1 + count_logs steps"
    using vers2 lvs by simp
  have "[?n + 1..<?n + 2 + count_logs steps] = (?n + 1) # [?n + 2..<?n + 2 + count_logs steps]"
    by (simp add: upt_conv_Cons)
  with ids have "map r_version_id (?v # vs) = map int [?n + 1..<?n + 2 + count_logs steps]"
    by simp
  then have c2: "map version_id (drop ?n (versions (document_of ?st2)))
      = map int [?n + 1..<?n + 2 + count_logs steps]"
    unfolding vers2 by (simp add: version_of_def comp_def)
  have c3: "versions (document_of ?st1) ! ?n
      = \<lparr>version_id = int ?n + 1, timestamp = now1, user = u, role = ro, changes = ch,
          content_snapshot = map (deref h) (r_sections r)\<rparr>"
    unfolding st1 using vals by (simp add: document_of_def version_of_def nth_append)
  have c4: "versions (document_of ?st2) ! ?n
      = \<lparr>version_id = int ?n + 1, timestamp = now1, user = u, role = ro, changes = ch,
          content_snapshot = map (deref h) (r_sections r)\<rparr>"
    unfolding vers2 using vals keep st2 by (simp add: version_of_def nth_append)
  from c1 c2 c3 c4 show ?thesis unfolding n secs0 by simp
qed


theorem log_version_snapshot_witness:
  "allocated example_state \<and>
   sections (document_of example_state) = [new_section ''A'' ''a'' ''text'' 0] \<and>
   sections (document_of
       (run_ref (log_version_ref example_state ''ann'' ''doer'' ''first draft'' clock0 clock0)
          example_steps))
     = [\<lparr>title = ''A'', content = ''changed'', content_type = ''text'', ai_generated = False,
         locked = True, order = 7, metadata = [(''reviewed'', PBool True)]\<rparr>] \<and>
   versions (document_of
       (run_ref (log_version_ref example_state ''ann'' ''doer'' ''first draft'' clock0 clock0)
          example_steps)) ! 0
     = \<lparr>version_id = 1, timestamp = clock0, user = ''ann'', role = ''doer'',
         changes = ''first draft'',
         content_snapshot = [new_section ''A'' ''a'' ''text'' 0]\<rparr> \<and>
   map version_id (versions (document_of
       (run_ref (log_version_ref example_state ''ann'' ''doer'' ''first draft'' clock0 clock0)
          example_steps)))
     = [1, 2]"
proof -
  have a: "allocated example_state" by code_simp
  have b: "sections (document_of example_state) = [new_section ''A'' ''a'' ''text'' 0]"
    by code_simp
  have c: "length (versions (document_of example_state)) = 0" by code_simp
  have d: "count_logs example_steps = 1" by code_simp
  have e: "sections (document_of
       (run_ref (log_version_ref example_state ''ann'' ''doer'' ''first draft'' clock0 clock0)
          example_steps))
     = [\<lparr>title = ''A'', content = ''changed'', content_type = ''text'', ai_generated = False,
         locked = True, order = 7, metadata = [(''reviewed'', PBool True)]\<rparr>]"
    by code_simp
  note t = log_version_snapshot
    [OF a, of "''ann''" "''doer''" "''first draft''" clock0 clock0 example_steps]
  from t have f: "versions (document_of
       (run_ref (log_version_ref example_state ''ann'' ''doer'' ''first draft'' clock0 clock0)
          example_steps)) ! 0
     = \<lparr>version_id = 1, timestamp = clock0, user = ''ann'', role = ''doer'',
         changes = ''first draft'',
         content_snapshot = [new_section ''A'' ''a'' ''text'' 0]\<rparr>"
    unfolding b c by simp
  have "[0 + 1..<0 + 2 + 1] = [1, 2::nat]" by (simp add: upt_conv_Cons)
  with t have g: "map version_id (versions (document_of
       (run_ref (log_version_ref example_state ''ann'' ''doer'' ''first draft'' clock0 clock0)
          example_steps)))
     = [1, 2]"
    unfolding c d by simp
  from a b e f g show ?thesis by (simp only: simp_thms)
qed

section \<open>Properties of the serialisation\<close>

subsection \<open>Numbers and timestamps\<close>

lemma digits_val_snoc: "digits_val (s @ [ch]) = 10 * digits_val s + (of_char ch - 48)"
  by (simp add: digits_val_def)

lemma of_char_digit: "k < 10 \<Longrightarrow> (of_char (char_of (48 + k) :: char) :: nat) = 48 + k"
  by simp

lemma dec_digits: "list_all is_digit (dec n)"
proof (induction n rule: dec.induct)
  case (1 n)
  show ?case
  proof (cases "n < 10")
    case True
    then show ?thesis by (subst dec.simps) (simp add: is_digit_def)
  next
    case False
    have "n mod 10 < 10" by simp
    then have "is_digit (char_of (48 + n mod 10))"
      unfolding is_digit_def by (simp only: of_char_digit) simp
    with False 1 show ?thesis by (subst dec.simps) simp
  qed
qed

lemma dec_val: "digits_val (dec n) = n"
proof (induction n rule: dec.induct)
  case (1 n)
  show ?case
  proof (cases "n < 10")
    case True
    then show ?thesis by (subst dec.simps) (simp add: digits_val_def)
  next
    case False
    have "n mod 10 < 10" by simp
    then have "(of_char (char_of (48 + n mod 10) :: char) :: nat) - 48 = n mod 10"
      by (simp only: of_char_digit)
    with False 1 show ?thesis
      by (subst dec.simps) (simp add: digits_val_snoc del: of_char_of)
  qed
qed

lemma dec_nonempty: "dec n \<noteq> []"
  by (subst dec.simps) simp

lemma dec_length: "n < 10 ^ w \<Longrightarrow> 0 < w \<Longrightarrow> length (dec n) \<le> w"
proof (induction n arbitrary: w rule: dec.induct)
  case (1 n)
  show ?case
  proof (cases "n < 10")
    case True
    with "1.prems" show ?thesis by (subst dec.simps) simp
  next
    case False
    from "1.prems" obtain v where w: "w = Suc v" by (cases w) auto
    with False "1.prems" have v: "0 < v" by (cases v) auto
    from "1.prems" w have "n div 10 < 10 ^ v" by (simp add: less_mult_imp_div_less mult.commute)
    from "1.IH" [OF False this v] w False show ?thesis by (subst dec.simps) simp
  qed
qed

lemma digits_val_zeros: "digits_val (replicate k (CHR ''0'') @ s) = digits_val s"
proof -
  have "foldl (\<lambda>acc ch. 10 * acc + (of_char ch - 48)) 0 (replicate k (CHR ''0'')) = (0::nat)"
    by (induction k) simp_all
  then show ?thesis by (simp add: digits_val_def)
qed

lemma parse_nat_zfill: "parse_nat (zfill w (dec n)) = Some n"
proof -
  have "is_digit (CHR ''0'')" by (simp add: is_digit_def)
  then have "list_all is_digit (replicate (w - length (dec n)) (CHR ''0''))"
    by (simp add: list_all_iff)
  then show ?thesis
    by (simp add: parse_nat_def zfill_def digits_val_zeros dec_val dec_digits dec_nonempty)
qed

lemma length_zfill: "n < 10 ^ w \<Longrightarrow> 0 < w \<Longrightarrow> length (zfill w (dec n)) = w"
  using dec_length [of n w] by (simp add: zfill_def)

text \<open>Reading back the text of a valid datetime gives the datetime.\<close>

lemma fromisoformat_isoformat:
  assumes "valid_datetime t"
  shows "fromisoformat (isoformat t) = Some t"
proof -
  define Y where "Y = zfill 4 (dec (year t))"
  define Mo where "Mo = zfill 2 (dec (month t))"
  define D where "D = zfill 2 (dec (day t))"
  define H where "H = zfill 2 (dec (hour t))"
  define Mi where "Mi = zfill 2 (dec (minute t))"
  define S where "S = zfill 2 (dec (second t))"
  define U where "U = zfill 6 (dec (microsecond t))"
  from assms have d31: "day t \<le> 31"
    by (auto simp: valid_datetime_def days_in_month_def split: if_splits)
  from assms d31 have len [simp]:
    "length Y = 4" "length Mo = 2" "length D = 2" "length H = 2" "length Mi = 2"
    "length S = 2" "length U = 6"
    unfolding Y_def Mo_def D_def H_def Mi_def S_def U_def
    by (simp_all add: length_zfill valid_datetime_def)
  have p [simp]:
    "parse_nat Y = Some (year t)" "parse_nat Mo = Some (month t)" "parse_nat D = Some (day t)"
    "parse_nat H = Some (hour t)" "parse_nat Mi = Some (minute t)"
    "parse_nat S = Some (second t)" "parse_nat U = Some (microsecond t)"
    unfolding Y_def Mo_def D_def H_def Mi_def S_def U_def by (simp_all add: parse_nat_zfill)
  have rec: "\<lparr>year = year t, month = month t, day = day t, hour = hour t, minute = minute t,
             second = second t, microsecond = microsecond t\<rparr> = t"
    by simp
  show ?thesis
  proof (cases "microsecond t = 0")
    case True
    then have iso: "isoformat t = Y @ ''-'' @ Mo @ ''-'' @ D @ ''T'' @ H @ '':'' @ Mi @ '':'' @ S"
      by (simp add: isoformat_def Y_def Mo_def D_def H_def Mi_def S_def)
    have rec0: "\<lparr>year = year t, month = month t, day = day t, hour = hour t, minute = minute t,
             second = second t, microsecond = 0\<rparr> = t"
      using True by simp
    show ?thesis
      unfolding iso fromisoformat_def using assms
      by (simp add: nth_append rec0)
  next
    case False
    then have iso: "isoformat t =
        Y @ ''-'' @ Mo @ ''-'' @ D @ ''T'' @ H @ '':'' @ Mi @ '':'' @ S @ ''.'' @ U"
      by (simp add: isoformat_def Y_def Mo_def D_def H_def Mi_def S_def U_def)
    show ?thesis
      unfolding iso fromisoformat_def using assms
      by (simp add: nth_append rec)
  qed
qed


subsection \<open>Round trip\<close>

lemma section_round_trip: "section_from_dict (section_to_dict sec) = Some sec"
  by (simp add: section_from_dict_def section_to_dict_def only_keys_def section_fields_def
        get_str_def get_bool_def get_int_def get_dict_def)

lemma those_round_trip:
  "(\<And>x. x \<in> set xs \<Longrightarrow> f (g x) = Some x) \<Longrightarrow> those (map f (map g xs)) = Some xs"
  by (induction xs) simp_all

lemma version_round_trip:
  assumes "valid_datetime (timestamp ver)"
  shows "version_from_dict (version_to_dict ver) = Some ver"
proof -
  have "those (map section_from_dict (map section_to_dict (content_snapshot ver)))
          = Some (content_snapshot ver)"
    by (rule those_round_trip) (rule section_round_trip)
  with assms show ?thesis
    by (simp add: version_from_dict_def version_to_dict_def only_keys_def version_fields_def
          get_str_def get_int_def get_list_def get_datetime_def fromisoformat_isoformat)
qed

text \<open>
  C6. For every document whose timestamps are valid datetimes (every document Python can
  hold; in particular one with sections, versions and metadata), \<open>from_dict\<close> of its
  \<open>to_dict\<close> succeeds and gives back an equal document: every field, the timestamps
  through their ISO 8601 text, all sections, the metadata, and every version with its
  snapshot.
\<close>

theorem document_round_trip:
  assumes "valid_timestamps d"
  shows "from_dict (to_dict d) = Some d"
proof -
  have ss: "those (map section_from_dict (map section_to_dict (sections d))) = Some (sections d)"
    by (rule those_round_trip) (rule section_round_trip)
  from assms have "\<And>ver. ver \<in> set (versions d) \<Longrightarrow> version_from_dict (version_to_dict ver) = Some ver"
    by (simp add: valid_timestamps_def list_all_iff version_round_trip)
  then have vs: "those (map version_from_dict (map version_to_dict (versions d)))
      = Some (versions d)"
    by (rule those_round_trip)
  from assms have ts: "fromisoformat (isoformat (created_at d)) = Some (created_at d)"
    "fromisoformat (isoformat (last_modified d)) = Some (last_modified d)"
    by (simp_all add: valid_timestamps_def fromisoformat_isoformat)
  from ss vs ts show ?thesis
    by (cases "approver d")
       (simp_all add: from_dict_def to_dict_def only_keys_def document_fields_def get_str_def
          get_bool_def get_dict_def get_list_def get_datetime_def get_approver_def)
qed

theorem document_round_trip_witness:
  "valid_timestamps example_document \<and>
   length (sections example_document) = 1 \<and> length (versions example_document) = 1 \<and>
   doc_metadata example_document \<noteq> [] \<and>
   from_dict (to_dict example_document) = Some example_document"
proof -
  have a: "valid_timestamps example_document"
    by (simp add: valid_timestamps_def example_document_def log_version_def add_section_def
          new_document_def new_section_def clock0_def valid_datetime_def days_in_month_def
          Let_def)
  have b: "length (sections example_document) = 1"
    by (simp add: example_document_def log_version_def add_section_def new_document_def Let_def)
  have c: "length (versions example_document) = 1"
    by (simp add: example_document_def log_version_def add_section_def new_document_def Let_def)
  have d: "doc_metadata example_document \<noteq> []" by (simp add: example_document_def)
  note e = document_round_trip [OF a]
  from a b c d e show ?thesis by blast
qed

section \<open>The value model is the store model without sharing\<close>

lemma separate_union:
  "separate (S \<union> S') (M \<union> M') st = (separate S M st \<and> separate S' M' st)"
  by (cases st) (auto simp: separate_def)

lemma version_of_unchanged:
  assumes "unchanged_on S M h h'" and "set (r_snapshot v) \<subseteq> S"
    and "(\<lambda>a. obj_metadata (secs h a)) ` set (r_snapshot v) \<subseteq> M"
  shows "version_of h' v = version_of h v"
  using deref_unchanged [OF assms] by (simp add: version_of_def)

lemma versions_unchanged:
  assumes "unchanged_on (snapshot_addrs r) (snapshot_dicts h r) h h'"
  shows "map (version_of h') (r_versions r) = map (version_of h) (r_versions r)"
proof (rule map_cong [OF refl])
  fix v assume "v \<in> set (r_versions r)"
  then have "set (r_snapshot v) \<subseteq> snapshot_addrs r" by (auto simp: snapshot_addrs_def)
  moreover from this
  have "(\<lambda>a. obj_metadata (secs h a)) ` set (r_snapshot v) \<subseteq> snapshot_dicts h r"
    by (auto simp: snapshot_dicts_def)
  ultimately show "version_of h' v = version_of h v"
    by (rule version_of_unchanged [OF assms])
qed

lemma snapshot_dicts_unchanged:
  assumes "unchanged_on (snapshot_addrs r) M h h'" and "r_versions r' = r_versions r"
  shows "snapshot_dicts h' r' = snapshot_dicts h r"
proof -
  from assms(2) have s: "snapshot_addrs r' = snapshot_addrs r" by (simp add: snapshot_addrs_def)
  from assms(1) have "\<And>a. a \<in> snapshot_addrs r \<Longrightarrow>
      obj_metadata (secs h' a) = obj_metadata (secs h a)"
    by (simp add: unchanged_on_def)
  then show ?thesis unfolding snapshot_dicts_def s by (rule image_cong [OF refl])
qed

lemma map_insort_key:
  "map g (insort_key (\<lambda>x. k (g x)) x xs) = insort_key k (g x) (map g xs)"
  by (induction xs) simp_all

lemma map_sort_key: "map g (sort_key (\<lambda>x. k (g x)) xs) = sort_key k (map g xs)"
  by (induction xs) (simp_all add: map_insort_key)

lemma find_map: "find P (map g xs) = map_option g (find (\<lambda>x. P (g x)) xs)"
  by (induction xs) simp_all

lemma deref_write_other [simp]: "b \<noteq> a \<Longrightarrow> deref (write_section h a f) b = deref h b"
  by (simp add: deref_def)

lemma map_deref_write_other:
  "a \<notin> set as \<Longrightarrow> map (deref (write_section h a f)) as = map (deref h) as"
  by (induction as) auto

lemma deref_set_orders:
  "distinct as \<Longrightarrow> map (deref (set_orders h i as)) as = enumerate_order i (map (deref h) as)"
proof (induction as arbitrary: h i)
  case Nil
  then show ?case by simp
next
  case (Cons a as)
  let ?h = "write_section h a (\<lambda>obj. obj\<lparr>obj_order := int i\<rparr>)"
  from Cons.prems have na: "a \<notin> set as" and d: "distinct as" by simp_all
  from na have "secs (set_orders ?h (Suc i) as) a = secs ?h a"
    by (simp add: set_orders_frame)
  then have "deref (set_orders ?h (Suc i) as) a = (deref h a)\<lparr>order := int i\<rparr>"
    by (simp add: deref_def set_orders_frame)
  moreover from Cons.IH [OF d, of ?h "Suc i"] na
  have "map (deref (set_orders ?h (Suc i) as)) as = enumerate_order (Suc i) (map (deref h) as)"
    by (simp add: map_deref_write_other)
  ultimately show ?case by simp
qed

lemma deref_lock_all:
  "distinct as \<Longrightarrow>
   map (deref (lock_all h as)) as = map (\<lambda>sec. sec\<lparr>locked := True\<rparr>) (map (deref h) as)"
proof (induction as arbitrary: h)
  case Nil
  then show ?case by simp
next
  case (Cons a as)
  let ?h = "write_section h a (\<lambda>obj. obj\<lparr>obj_locked := True\<rparr>)"
  from Cons.prems have na: "a \<notin> set as" and d: "distinct as" by simp_all
  from na have "secs (lock_all ?h as) a = secs ?h a" by (simp add: lock_all_frame)
  then have "deref (lock_all ?h as) a = (deref h a)\<lparr>locked := True\<rparr>"
    by (simp add: deref_def lock_all_frame)
  moreover from Cons.IH [OF d, of ?h] na
  have "map (deref (lock_all ?h as)) as = map (\<lambda>sec. sec\<lparr>locked := True\<rparr>) (map (deref h) as)"
    by (simp add: map_deref_write_other)
  ultimately show ?case by simp
qed

lemma deref_update_first:
  assumes "distinct as" and "find (\<lambda>x. obj_title (secs h x) = t) as = Some a"
  shows "map (deref (write_section h a (\<lambda>obj. obj\<lparr>obj_content := c, obj_ai_generated := ai\<rparr>))) as
         = update_first t (\<lambda>s. s\<lparr>content := c, ai_generated := ai\<rparr>) (map (deref h) as)"
  using assms
proof (induction as)
  case Nil
  then show ?case by simp
next
  case (Cons b as)
  show ?case
  proof (cases "obj_title (secs h b) = t")
    case True
    with Cons.prems have "b = a" "a \<notin> set as" by simp_all
    with True show ?thesis by (simp add: map_deref_write_other) (simp add: deref_def)
  next
    case False
    with Cons.prems have f: "find (\<lambda>x. obj_title (secs h x) = t) as = Some a" and d: "distinct as"
      by simp_all
    from f have "a \<in> set as" by (auto simp: find_Some_iff)
    with Cons.prems have "b \<noteq> a" by auto
    with False Cons.IH [OF d f] show ?thesis by (simp add: deref_def)
  qed
qed


lemma unshared_step:
  assumes "unshared (h, r)"
    and "separate (snapshot_addrs r) (snapshot_dicts h r) (h', r')"
    and "unchanged_on (snapshot_addrs r) (snapshot_dicts h r) h h'"
    and "r_versions r' = r_versions r" and "distinct (r_sections r')"
  shows "unshared (h', r')"
    and "map (version_of h') (r_versions r') = map (version_of h) (r_versions r)"
proof -
  from assms(4) have s: "snapshot_addrs r' = snapshot_addrs r" by (simp add: snapshot_addrs_def)
  from snapshot_dicts_unchanged [OF assms(3,4)] s assms(2,5) show "unshared (h', r')"
    by (simp add: unshared_def)
  from versions_unchanged [OF assms(3)] assms(4)
  show "map (version_of h') (r_versions r') = map (version_of h) (r_versions r)" by simp
qed

lemma refine_add_section:
  assumes "unshared st"
  shows "unshared (add_section_ref st t c ct ord) \<and>
         document_of (add_section_ref st t c ct ord) = add_section (document_of st) t c ct ord"
proof -
  obtain h r where st: "st = (h, r)" by (cases st)
  define n where "n = next_addr h"
  define k where "k = (case ord of None \<Rightarrow> int (length (r_sections r)) | Some k \<Rightarrow> k)"
  define h2 where "h2 = snd (alloc_section (snd (alloc_dict h []))
      \<lparr>obj_title = t, obj_content = c, obj_content_type = ct, obj_ai_generated = False,
       obj_locked = False, obj_order = k, obj_metadata = n\<rparr>)"
  define r2 where
    "r2 = r\<lparr>r_sections := sort_key (\<lambda>x. obj_order (secs h2 x)) (r_sections r @ [Suc n])\<rparr>"
  have res: "add_section_ref st t c ct ord = (h2, r2)"
    unfolding st h2_def r2_def n_def k_def
    by (simp add: add_section_ref_def alloc_dict_def alloc_section_def Let_def cong: if_cong)
  from assms st have sep: "separate (snapshot_addrs r) (snapshot_dicts h r) (h, r)"
    and dist: "distinct (r_sections r)" by (simp_all add: unshared_def)
  from separate_add_section [OF sep, of t c ct ord] res st
  have sep2: "separate (snapshot_addrs r) (snapshot_dicts h r) (h2, r2)"
    and unch: "unchanged_on (snapshot_addrs r) (snapshot_dicts h r) h h2" by simp_all
  from sep have below: "\<forall>x \<in> set (r_sections r). x < n \<and> obj_metadata (secs h x) < n"
    by (simp add: separate_def n_def)
  then have fresh: "Suc n \<notin> set (r_sections r)" by auto
  with dist have d2: "distinct (r_sections r2)" by (simp add: r2_def)
  have v2: "r_versions r2 = r_versions r" by (simp add: r2_def)
  from assms st have u: "unshared (h, r)" by simp
  note step = unshared_step [OF u sep2 unch v2 d2]
  from below have old: "map (deref h2) (r_sections r) = map (deref h) (r_sections r)"
    by (auto simp: h2_def n_def deref_def alloc_dict_def alloc_section_def)
  have new: "deref h2 (Suc n) = new_section t c ct k"
    by (simp add: h2_def n_def deref_def alloc_dict_def alloc_section_def new_section_def)
  have "(\<lambda>x. obj_order (secs h2 x)) = (\<lambda>x. order (deref h2 x))" by (simp add: deref_def)
  then have "r_sections r2 = sort_key (\<lambda>x. order (deref h2 x)) (r_sections r @ [Suc n])"
    by (simp add: r2_def)
  then have "map (deref h2) (r_sections r2)
      = sort_key order (map (deref h2) (r_sections r @ [Suc n]))"
    by (simp only: map_sort_key)
  then have secs2: "map (deref h2) (r_sections r2)
      = sort_key order (map (deref h) (r_sections r) @ [new_section t c ct k])"
    by (simp only: map_append list.map old new)
  from step(2) secs2 have "document_of (h2, r2) = add_section (document_of (h, r)) t c ct ord"
    by (cases ord) (simp_all add: document_of_def add_section_def k_def r2_def Let_def)
  with step(1) res st show ?thesis by simp
qed

lemma refine_remove_section:
  assumes "unshared st"
  shows "unshared (remove_section_ref st t) \<and>
         document_of (remove_section_ref st t) = remove_section (document_of st) t"
proof -
  obtain h r where st: "st = (h, r)" by (cases st)
  define keep where "keep = filter (\<lambda>a. obj_title (secs h a) \<noteq> t) (r_sections r)"
  define h2 where "h2 = set_orders h 0 keep"
  define r2 where "r2 = r\<lparr>r_sections := keep\<rparr>"
  have res: "remove_section_ref st t = (h2, r2)"
    unfolding st h2_def r2_def keep_def by (simp add: remove_section_ref_def Let_def)
  from assms st have sep: "separate (snapshot_addrs r) (snapshot_dicts h r) (h, r)"
    and dist: "distinct (r_sections r)" and u: "unshared (h, r)"
    by (simp_all add: unshared_def)
  from separate_remove_section [OF sep, of t] res st
  have sep2: "separate (snapshot_addrs r) (snapshot_dicts h r) (h2, r2)"
    and unch: "unchanged_on (snapshot_addrs r) (snapshot_dicts h r) h h2" by simp_all
  from dist have d2: "distinct (r_sections r2)" by (simp add: r2_def keep_def)
  have v2: "r_versions r2 = r_versions r" by (simp add: r2_def)
  note step = unshared_step [OF u sep2 unch v2 d2]
  from d2 have "map (deref h2) keep = enumerate_order 0 (map (deref h) keep)"
    unfolding h2_def by (simp add: deref_set_orders r2_def)
  moreover have "map (deref h) keep
      = filter (\<lambda>sec. title sec \<noteq> t) (map (deref h) (r_sections r))"
    by (simp add: keep_def filter_map comp_def deref_def)
  ultimately have "document_of (h2, r2) = remove_section (document_of (h, r)) t"
    using step(2)
    by (simp add: document_of_def remove_section_def reorder_sections_def r2_def)
  with step(1) res st show ?thesis by simp
qed

lemma refine_update_section:
  assumes "unshared st"
  shows "unshared (snd (update_section_ref st t c ai now)) \<and>
         fst (update_section_ref st t c ai now) = fst (update_section (document_of st) t c ai now) \<and>
         document_of (snd (update_section_ref st t c ai now))
           = snd (update_section (document_of st) t c ai now)"
proof -
  obtain h r where st: "st = (h, r)" by (cases st)
  from assms st have sep: "separate (snapshot_addrs r) (snapshot_dicts h r) (h, r)"
    and dist: "distinct (r_sections r)" and u: "unshared (h, r)"
    by (simp_all add: unshared_def)
  have g: "get_section (document_of st) t = map_option (deref h) (get_section_ref st t)"
    unfolding st
    by (simp add: get_section_def get_section_ref_def document_of_def find_map deref_def)
  show ?thesis
  proof (cases "get_section_ref st t")
    case None
    with g assms show ?thesis by (simp add: update_section_ref_def update_section_def st)
  next
    case (Some a)
    show ?thesis
    proof (cases "obj_locked (secs h a)")
      case True
      with Some g assms show ?thesis
        by (simp add: update_section_ref_def update_section_def st deref_def)
    next
      case False
      define h2 where
        "h2 = write_section h a (\<lambda>obj. obj\<lparr>obj_content := c, obj_ai_generated := ai\<rparr>)"
      define r2 where "r2 = r\<lparr>r_last_modified := now\<rparr>"
      from Some False have res: "update_section_ref st t c ai now = (True, h2, r2)"
        by (simp add: update_section_ref_def st h2_def r2_def)
      from separate_update_section [OF sep, of t c ai now] res st
      have sep2: "separate (snapshot_addrs r) (snapshot_dicts h r) (h2, r2)"
        and unch: "unchanged_on (snapshot_addrs r) (snapshot_dicts h r) h h2" by simp_all
      from dist have d2: "distinct (r_sections r2)" by (simp add: r2_def)
      have v2: "r_versions r2 = r_versions r" by (simp add: r2_def)
      note step = unshared_step [OF u sep2 unch v2 d2]
      from Some st have f: "find (\<lambda>x. obj_title (secs h x) = t) (r_sections r) = Some a"
        by (simp add: get_section_ref_def)
      from deref_update_first [OF dist f, where c = c and ai = ai]
      have "map (deref h2) (r_sections r)
          = update_first t (\<lambda>s. s\<lparr>content := c, ai_generated := ai\<rparr>) (map (deref h) (r_sections r))"
        by (simp add: h2_def)
      with step(2) Some False g
      have "update_section (document_of (h, r)) t c ai now = (True, document_of (h2, r2))"
        by (simp add: update_section_def document_of_def r2_def st deref_def)
      with step(1) res st show ?thesis by simp
    qed
  qed
qed


lemma separate_fresh_snapshot:
  assumes "snapshot_ref h (r_sections r) = (snap, h1)"
    and "\<forall>a \<in> set (r_sections r). a < next_addr h \<and> obj_metadata (secs h a) < next_addr h"
    and "r_sections r' = r_sections r"
  shows "separate (set snap) ((\<lambda>a. obj_metadata (secs h1 a)) ` set snap) (h1, r')"
  using snapshot_ref_fresh [OF assms(1)] assms(2,3)
  unfolding separate_def by fastforce

lemma refine_log_version:
  assumes "unshared st"
  shows "unshared (log_version_ref st u ro ch n1 n2) \<and>
         document_of (log_version_ref st u ro ch n1 n2)
           = log_version (document_of st) u ro ch n1 n2"
proof -
  obtain h r where st: "st = (h, r)" by (cases st)
  obtain snap h1 where s: "snapshot_ref h (r_sections r) = (snap, h1)"
    by (cases "snapshot_ref h (r_sections r)")
  define v where "v = \<lparr>r_version_id = int (length (r_versions r)) + 1, r_timestamp = n1,
     r_user = u, r_role = ro, r_changes = ch, r_snapshot = snap\<rparr>"
  define r1 where "r1 = r\<lparr>r_versions := r_versions r @ [v], r_last_modified := n2\<rparr>"
  from s have res: "log_version_ref st u ro ch n1 n2 = (h1, r1)"
    by (simp add: log_version_ref_def st Let_def r1_def v_def)
  from assms st have sep: "separate (snapshot_addrs r) (snapshot_dicts h r) (h, r)"
    and dist: "distinct (r_sections r)" by (simp_all add: unshared_def)
  from sep have below:
    "\<forall>a \<in> set (r_sections r). a < next_addr h \<and> obj_metadata (secs h a) < next_addr h"
    by (simp add: separate_def)
  from separate_log_version [OF sep, of u ro ch n1 n2] res st
  have sep1: "separate (snapshot_addrs r) (snapshot_dicts h r) (h1, r1)"
    and unch: "unchanged_on (snapshot_addrs r) (snapshot_dicts h r) h h1" by simp_all
  have sec1: "r_sections r1 = r_sections r" by (simp add: r1_def)
  from separate_fresh_snapshot [OF s below sec1]
  have sep2: "separate (set snap) ((\<lambda>a. obj_metadata (secs h1 a)) ` set snap) (h1, r1)" .
  have addrs: "snapshot_addrs r1 = snapshot_addrs r \<union> set snap"
    by (auto simp: snapshot_addrs_def r1_def v_def)
  from unch have "(\<lambda>a. obj_metadata (secs h1 a)) ` snapshot_addrs r = snapshot_dicts h r"
    unfolding snapshot_dicts_def by (intro image_cong [OF refl]) (simp add: unchanged_on_def)
  then have dicts1: "snapshot_dicts h1 r1
      = snapshot_dicts h r \<union> (\<lambda>a. obj_metadata (secs h1 a)) ` set snap"
    by (simp add: snapshot_dicts_def addrs image_Un)
  from sep1 sep2 dist sec1 have u1: "unshared (h1, r1)"
    by (simp add: unshared_def addrs dicts1 separate_union)
  from below have alloc:
    "list_all (\<lambda>a. a < next_addr h \<and> obj_metadata (secs h a) < next_addr h) (r_sections r)"
    by (simp add: list_all_iff)
  from snapshot_ref_values [OF s alloc]
  have snapv: "map (deref h1) snap = map (deref h) (r_sections r)" .
  from snapshot_ref_fresh [OF s] below
  have live: "map (deref h1) (r_sections r) = map (deref h) (r_sections r)"
    by (auto simp: deref_def)
  from versions_unchanged [OF unch]
  have old: "map (version_of h1) (r_versions r) = map (version_of h) (r_versions r)" .
  have "document_of (h1, r1) = log_version (document_of (h, r)) u ro ch n1 n2"
    by (simp add: document_of_def log_version_def Let_def r1_def v_def version_of_def
          snapv live old)
  with u1 res st show ?thesis by simp
qed

lemma refine_approve:
  assumes "unshared st"
  shows "unshared (approve_ref st u n1 n2) \<and>
         document_of (approve_ref st u n1 n2) = approve (document_of st) u n1 n2"
proof -
  obtain h r where st: "st = (h, r)" by (cases st)
  define h2 where "h2 = lock_all h (r_sections r)"
  define r2 where "r2 = r\<lparr>r_approved := True, r_approver := Some u\<rparr>"
  from assms st have sep: "separate (snapshot_addrs r) (snapshot_dicts h r) (h, r)"
    and dist: "distinct (r_sections r)" and un: "unshared (h, r)"
    by (simp_all add: unshared_def)
  have sec2: "r_sections r2 = r_sections r" by (simp add: r2_def)
  from separate_lock_all [OF sep sec2]
  have sep2: "separate (snapshot_addrs r) (snapshot_dicts h r) (h2, r2)"
    and unch: "unchanged_on (snapshot_addrs r) (snapshot_dicts h r) h h2"
    by (simp_all add: h2_def)
  from dist have d2: "distinct (r_sections r2)" by (simp add: r2_def)
  have v2: "r_versions r2 = r_versions r" by (simp add: r2_def)
  note step = unshared_step [OF un sep2 unch v2 d2]
  from deref_lock_all [OF dist, of h]
  have "map (deref h2) (r_sections r)
      = map (\<lambda>sec. sec\<lparr>locked := True\<rparr>) (map (deref h) (r_sections r))"
    by (simp add: h2_def)
  with step(2) have mid: "document_of (h2, r2)
      = (document_of (h, r))\<lparr>approved := True, approver := Some u,
           sections := map (\<lambda>sec. sec\<lparr>locked := True\<rparr>) (sections (document_of (h, r)))\<rparr>"
    by (simp add: document_of_def r2_def)
  from refine_log_version [OF step(1), of u "''approver''" "''Document approved''" n1 n2] mid
  show ?thesis
    by (simp add: approve_ref_def approve_def st h2_def r2_def)
qed

text \<open>
  Every method of \<open>Document\<close>, run on a store without sharing, leaves a store without
  sharing, and the document it stands for is the result of the method of the value model.
\<close>

lemma refine_op:
  assumes "unshared st"
  shows "unshared (apply_op_ref st x) \<and>
         document_of (apply_op_ref st x) = apply_op (document_of st) x"
  using assms
  by (cases x)
     (simp_all add: refine_add_section refine_remove_section refine_update_section
        refine_log_version refine_approve)

lemma refine_run:
  "unshared st \<Longrightarrow>
   unshared (run_ref st (map Method ops)) \<and>
   document_of (run_ref st (map Method ops)) = run (document_of st) ops"
proof (induction ops arbitrary: st)
  case Nil
  then show ?case by simp
next
  case (Cons x xs)
  from refine_op [OF Cons.prems, of x] Cons.IH [of "apply_op_ref st x"]
  show ?case by simp
qed

lemma unshared_new_document: "unshared (new_document_ref t now1 now2)"
  by (simp add: unshared_def new_document_ref_def separate_def snapshot_addrs_def
        snapshot_dicts_def)

lemma document_of_new_document:
  "document_of (new_document_ref t now1 now2) = new_document t now1 now2"
  by (simp add: document_of_def new_document_ref_def new_document_def)

text \<open>
  So every document built from \<open>Document(title=t)\<close> by the public methods is, in the
  store, the document the value model computes.
\<close>

lemma built_document:
  "document_of (run_ref (new_document_ref t now1 now2) (map Method ops))
     = run (new_document t now1 now2) ops"
  using refine_run [OF unshared_new_document, of t now1 now2 ops]
  by (simp add: document_of_new_document)

end
